theory Spec2Isabelle
  imports Main "HOL-Library.Word"
begin

section \<open>JavaScript strings\<close>

text \<open>
  A JavaScript string is a sequence of UTF-16 code units; \<open>length\<close>, \<open>slice\<close>,
  \<open>===\<close> and the regular expressions used by the program all work on code units.
\<close>

type_synonym jsstring = "16 word list"

definition ascii :: "string \<Rightarrow> jsstring" where
  "ascii s = map (\<lambda>c. of_nat (of_char c)) s"

definition LF :: "16 word" where
  "LF = 0x0A"

definition CR :: "16 word" where
  "CR = 0x0D"

text \<open>The characters removed by \<open>String.prototype.trim\<close>: WhiteSpace and LineTerminator.\<close>

definition isWhiteSpace :: "16 word \<Rightarrow> bool" where
  "isWhiteSpace c \<longleftrightarrow>
     c = 0x09 \<or> c = 0x0A \<or> c = 0x0B \<or> c = 0x0C \<or> c = 0x0D \<or> c = 0x20 \<or> c = 0xA0 \<or>
     c = 0x1680 \<or> (0x2000 \<le> c \<and> c \<le> 0x200A) \<or> c = 0x2028 \<or> c = 0x2029 \<or>
     c = 0x202F \<or> c = 0x205F \<or> c = 0x3000 \<or> c = 0xFEFF"

definition trimStart :: "jsstring \<Rightarrow> jsstring" where
  "trimStart s = dropWhile isWhiteSpace s"

definition trimEnd :: "jsstring \<Rightarrow> jsstring" where
  "trimEnd s = rev (dropWhile isWhiteSpace (rev s))"

definition trim :: "jsstring \<Rightarrow> jsstring" where
  "trim s = trimEnd (trimStart s)"

text \<open>
  \<open>s.split(/\r?\n/g)\<close>: a line feed ends a piece, and a carriage return right before
  it belongs to the separator. The result always has at least one piece.
\<close>

fun splitLines :: "jsstring \<Rightarrow> jsstring list" where
  "splitLines [] = [[]]"
| "splitLines (c # cs) =
     (if c = LF then [] # splitLines cs
      else if c = CR \<and> (case cs of [] \<Rightarrow> False | d # _ \<Rightarrow> d = LF) then splitLines cs
      else (case splitLines cs of [] \<Rightarrow> [[c]] | l # ls \<Rightarrow> (c # l) # ls))"

text \<open>\<open>pieces.join(sep)\<close>\<close>

fun join :: "jsstring \<Rightarrow> jsstring list \<Rightarrow> jsstring" where
  "join sep [] = []"
| "join sep [x] = x"
| "join sep (x # y # ys) = x @ sep @ join sep (y # ys)"

text \<open>
  \<open>s.slice(0, e)\<close> for an integer \<open>e\<close>: a negative end counts from the end of the
  string, and the end is clamped to the string.
\<close>

definition slice_to :: "jsstring \<Rightarrow> int \<Rightarrow> jsstring" where
  "slice_to s e =
     (let n = int (length s);
          k = (if e < 0 then max 0 (n + e) else min e n)
      in take (nat k) s)"

text \<open>\<open>s.slice(b)\<close> for an integer \<open>b\<close>.\<close>

definition slice_from :: "jsstring \<Rightarrow> int \<Rightarrow> jsstring" where
  "slice_from s b =
     (let n = int (length s);
          k = (if b < 0 then max 0 (n + b) else min b n)
      in drop (nat k) s)"

section \<open>Diff collector (diffCollector.ts)\<close>

record DiffCollectOptions =
  repositoryPath :: jsstring
  includeUntracked :: bool
  maxChars :: int

record DiffCollectResult =
  diffText :: jsstring
  trackedDiff :: jsstring
  untrackedFiles :: "jsstring list"
  wasTruncated :: bool

record TruncateResult =
  textT :: jsstring
  wasTruncatedT :: bool

text \<open>Lines written to the output channel by the collector.\<close>

datatype diff_log =
    LogDiffHeadFailed jsstring
  | LogUntrackedFailed jsstring

text \<open>
  The \<open>git\<close> executable is outside the program: \<open>execFileAsync('git', args)\<close> either
  rejects with an error message (\<open>Inl\<close>) or yields the standard output (\<open>Inr\<close>).
\<close>

type_synonym git_exec = "jsstring list \<Rightarrow> jsstring + jsstring"

definition runGit :: "git_exec \<Rightarrow> jsstring \<Rightarrow> jsstring list \<Rightarrow> jsstring + jsstring" where
  "runGit git repoPath args = git ([ascii ''-C'', repoPath] @ args)"

definition getTrackedDiff :: "git_exec \<Rightarrow> jsstring \<Rightarrow> diff_log list \<times> (jsstring + jsstring)" where
  "getTrackedDiff git repoPath =
     (case runGit git repoPath [ascii ''diff'', ascii ''HEAD'', ascii ''--''] of
        Inr out \<Rightarrow> ([], Inr out)
      | Inl e \<Rightarrow> ([LogDiffHeadFailed e], runGit git repoPath [ascii ''diff'', ascii ''--'']))"

definition getUntrackedFiles :: "git_exec \<Rightarrow> jsstring \<Rightarrow> jsstring + jsstring list" where
  "getUntrackedFiles git repoPath =
     (case runGit git repoPath [ascii ''ls-files'', ascii ''--others'', ascii ''--exclude-standard''] of
        Inl e \<Rightarrow> Inl e
      | Inr out \<Rightarrow> Inr (filter (\<lambda>line. length line > 0) (map trim (splitLines out))))"

definition TRUNCATION_MARKER :: jsstring where
  "TRUNCATION_MARKER = [LF, LF] @ ascii ''[TRUNCATED]''"

definition truncateDiffText :: "jsstring \<Rightarrow> int \<Rightarrow> TruncateResult" where
  "truncateDiffText dt mx =
     (if int (length dt) \<le> mx then \<lparr>textT = dt, wasTruncatedT = False\<rparr>
      else \<lparr>textT = slice_to dt mx @ TRUNCATION_MARKER, wasTruncatedT = True\<rparr>)"

text \<open>The text composed from the two sections, before truncation.\<close>

definition composeSections :: "jsstring \<Rightarrow> jsstring list \<Rightarrow> jsstring" where
  "composeSections tracked untracked =
     (let s1 = (if length (trim tracked) > 0
                then [ascii ''## Tracked Diff'' @ [LF] @ trim tracked] else []);
          s2 = (if length untracked > 0
                then [ascii ''## Untracked Files'' @ [LF] @
                        join [LF] (map (\<lambda>file. ascii ''- '' @ file) untracked)]
                else [])
      in join [LF, LF] (s1 @ s2))"

definition collectDiffForPrompt ::
  "git_exec \<Rightarrow> DiffCollectOptions \<Rightarrow> diff_log list \<times> (jsstring + DiffCollectResult)" where
  "collectDiffForPrompt git opts =
     (case getTrackedDiff git (repositoryPath opts) of
        (log1, Inl e) \<Rightarrow> (log1, Inl e)
      | (log1, Inr tracked) \<Rightarrow>
          (let (log2, untracked) =
                 (if includeUntracked opts
                  then (case getUntrackedFiles git (repositoryPath opts) of
                          Inr fs \<Rightarrow> ([], fs)
                        | Inl e \<Rightarrow> ([LogUntrackedFailed e], []))
                  else ([], []));
               combined = composeSections tracked untracked
           in if combined = []
              then (log1 @ log2,
                    Inr \<lparr>diffText = [], trackedDiff = tracked,
                         untrackedFiles = untracked, wasTruncated = False\<rparr>)
              else (let r = truncateDiffText combined (maxChars opts)
                    in (log1 @ log2,
                        Inr \<lparr>diffText = textT r, trackedDiff = tracked,
                             untrackedFiles = untracked, wasTruncated = wasTruncatedT r\<rparr>))))"

section \<open>External generator client (codexCli.ts)\<close>

datatype CodexCliErrorCode =
  NotFound | Timeout | ModelAccess | ProcessFailed | ParseFailed | EmptyResponse

record CodexCliError =
  code :: CodexCliErrorCode
  emessage :: jsstring
  details :: "jsstring option"

record CodexGenerateOptions =
  commandPath :: jsstring
  gmodel :: jsstring
  greasoningEffort :: jsstring
  prompt :: jsstring
  cwd :: jsstring
  timeoutMs :: int

text \<open>
  Decimal rendering of an integer, as a template string or \<open>String(n)\<close> does for a
  number below \<open>10^21\<close> in absolute value; from there on JavaScript prints the exponent
  form, which only changes the text of two messages.
\<close>

fun showNat :: "nat \<Rightarrow> jsstring" where
  "showNat n = (if n < 10 then [of_nat (48 + n)] else showNat (n div 10) @ [of_nat (48 + n mod 10)])"

definition showInt :: "int \<Rightarrow> jsstring" where
  "showInt i = (if i < 0 then 0x2D # showNat (nat (- i)) else showNat (nat i))"

text \<open>\<open>String(code)\<close> for the exit code passed to the close listener: a number or null.\<close>

definition showExitCode :: "int option \<Rightarrow> jsstring" where
  "showExitCode c = (case c of None \<Rightarrow> ascii ''null'' | Some i \<Rightarrow> showInt i)"

definition tail :: "jsstring \<Rightarrow> int \<Rightarrow> jsstring" where
  "tail txt mx =
     (if int (length txt) \<le> mx then txt else slice_from txt (int (length txt) - mx))"

definition isQuote :: "16 word \<Rightarrow> bool" where
  "isQuote c \<longleftrightarrow> c = 0x22 \<or> c = 0x27 \<or> c = 0x60"

text \<open>
  \<open>s.replace(/^["'`]+|["'`]+$/g, '')\<close>: the whole run of quote characters at the start
  of the string and the whole run at its end are removed.
\<close>

definition stripQuotes :: "jsstring \<Rightarrow> jsstring" where
  "stripQuotes s = rev (dropWhile isQuote (rev (dropWhile isQuote s)))"

definition normalizeGeneratedMessage :: "jsstring \<Rightarrow> jsstring" where
  "normalizeGeneratedMessage raw =
     (let firstLine =
            (case find (\<lambda>line. length line > 0) (map trim (splitLines raw)) of
               Some l \<Rightarrow> l
             | None \<Rightarrow> [])
      in trim (stripQuotes firstLine))"

text \<open>\<open>s.includes(p)\<close>\<close>

fun includesStr :: "jsstring \<Rightarrow> jsstring \<Rightarrow> bool" where
  "includesStr [] p = (p = [])"
| "includesStr (c # cs) p = (take (length p) (c # cs) = p \<or> includesStr cs p)"

text \<open>\<open>String.prototype.toLowerCase\<close> is a parameter of the model.\<close>

definition isModelAccessError :: "(jsstring \<Rightarrow> jsstring) \<Rightarrow> jsstring \<Rightarrow> bool" where
  "isModelAccessError toLowerCase txt =
     (let lowered = toLowerCase txt
      in includesStr lowered (ascii ''does not exist or you do not have access'') \<or>
         includesStr lowered (ascii ''do not have access to it''))"

text \<open>
  The values \<open>JSON.parse\<close> can return. \<open>JSON.parse\<close> itself is a parameter of the
  model: it yields \<open>None\<close> where it throws a SyntaxError.
\<close>

datatype json =
    JNull
  | JBool bool
  | JNum int
  | JStr jsstring
  | JArr "json list"
  | JObj "(jsstring \<times> json) list"

type_synonym json_parse = "jsstring \<Rightarrow> json option"

text \<open>
  Reading one of the properties \<open>type\<close>, \<open>item\<close>, \<open>text\<close> of a value that is not
  null: only an object can have it; \<open>None\<close> is \<open>undefined\<close>.
\<close>

fun getProp :: "json \<Rightarrow> jsstring \<Rightarrow> json option" where
  "getProp (JObj kvs) k = map_of kvs k"
| "getProp _ k = None"

text \<open>
  The test on a parsed event in \<open>processStdoutLines\<close>. Reading \<open>event.type\<close> of
  null throws a TypeError (\<open>Inl ()\<close>); otherwise the result is the text of a completed
  agent message, if the event is one.
\<close>

definition agentMessageText :: "json \<Rightarrow> unit + jsstring option" where
  "agentMessageText event =
     (case event of
        JNull \<Rightarrow> Inl ()
      | _ \<Rightarrow>
          (if getProp event (ascii ''type'') = Some (JStr (ascii ''item.completed''))
           then (case getProp event (ascii ''item'') of
                   None \<Rightarrow> Inr None
                 | Some JNull \<Rightarrow> Inr None
                 | Some item \<Rightarrow>
                     (if getProp item (ascii ''type'') = Some (JStr (ascii ''agent_message''))
                      then (case getProp item (ascii ''text'') of
                              Some (JStr t) \<Rightarrow> Inr (Some t)
                            | _ \<Rightarrow> Inr None)
                      else Inr None))
           else Inr None))"

text \<open>
  The loop over the complete lines: the second component is \<open>lastAgentMessage\<close>, the
  first one tells whether the loop was left by a TypeError.
\<close>

fun scanLines :: "json_parse \<Rightarrow> jsstring list \<Rightarrow> jsstring option \<Rightarrow> bool \<times> jsstring option" where
  "scanLines parse [] lastMsg = (False, lastMsg)"
| "scanLines parse (line # rest) lastMsg =
     (let trimmed = trim line
      in if trimmed = [] then scanLines parse rest lastMsg
         else (case parse trimmed of
                 None \<Rightarrow> scanLines parse rest lastMsg
               | Some event \<Rightarrow>
                   (case agentMessageText event of
                      Inl _ \<Rightarrow> (True, lastMsg)
                    | Inr None \<Rightarrow> scanLines parse rest lastMsg
                    | Inr (Some t) \<Rightarrow> scanLines parse rest (Some t))))"

text \<open>Lines written to the output channel while the child runs and when it closes.\<close>

datatype codex_log =
    LogTimedOut int
  | LogStderrTail jsstring
  | LogStdoutTail jsstring

text \<open>
  The variables of the promise executor. \<open>timerArmed\<close> tells whether the timeout set by
  \<open>setTimeout\<close> is still pending, \<open>killed\<close> whether \<open>child.kill()\<close> was called, and
  \<open>outcome\<close> is the state of the promise: \<open>None\<close> while it is pending, \<open>Some (Inl e)\<close>
  once rejected, \<open>Some (Inr m)\<close> once resolved.
\<close>

record proc_state =
  stdoutBuffer :: jsstring
  stdoutRaw :: jsstring
  stderrRaw :: jsstring
  lastAgentMessage :: "jsstring option"
  timedOut :: bool
  settled :: bool
  timerArmed :: bool
  killed :: bool
  outcome :: "(CodexCliError + jsstring) option"
  plog :: "codex_log list"

definition initialProcState :: proc_state where
  "initialProcState =
     \<lparr>stdoutBuffer = [], stdoutRaw = [], stderrRaw = [], lastAgentMessage = None,
      timedOut = False, settled = False, timerArmed = True, killed = False,
      outcome = None, plog = []\<rparr>"

text \<open>
  \<open>processStdoutLines\<close>; the flag tells whether it threw. The assignments to
  \<open>stdoutRaw\<close> and \<open>stdoutBuffer\<close> precede the loop, so they survive a throw.
\<close>

definition processStdoutLines :: "json_parse \<Rightarrow> jsstring \<Rightarrow> proc_state \<Rightarrow> proc_state \<times> bool" where
  "processStdoutLines parse chunk st =
     (let buf = stdoutBuffer st @ chunk;
          pieces = splitLines buf;
          (threw, lastMsg) = scanLines parse (butlast pieces) (lastAgentMessage st)
      in (st\<lparr>stdoutRaw := stdoutRaw st @ chunk,
              stdoutBuffer := last pieces,
              lastAgentMessage := lastMsg\<rparr>, threw))"

text \<open>A promise is settled by the first call of \<open>resolve\<close> or \<open>reject\<close> only.\<close>

definition reject :: "CodexCliError \<Rightarrow> proc_state \<Rightarrow> proc_state" where
  "reject e st = (case outcome st of None \<Rightarrow> st\<lparr>outcome := Some (Inl e)\<rparr> | Some _ \<Rightarrow> st)"

definition resolve :: "jsstring \<Rightarrow> proc_state \<Rightarrow> proc_state" where
  "resolve m st = (case outcome st of None \<Rightarrow> st\<lparr>outcome := Some (Inr m)\<rparr> | Some _ \<Rightarrow> st)"

definition appendLog :: "codex_log \<Rightarrow> proc_state \<Rightarrow> proc_state" where
  "appendLog l st = st\<lparr>plog := plog st @ [l]\<rparr>"

definition settle :: "(proc_state \<Rightarrow> proc_state) \<Rightarrow> proc_state \<Rightarrow> proc_state" where
  "settle callback st =
     (if settled st then st else callback (st\<lparr>settled := True, timerArmed := False\<rparr>))"

text \<open>The callback of \<open>setTimeout\<close>; it runs only while the timer is pending.\<close>

definition onTimeout :: "CodexGenerateOptions \<Rightarrow> proc_state \<Rightarrow> proc_state" where
  "onTimeout opts st =
     (if timerArmed st
      then (appendLog (LogTimedOut (timeoutMs opts)) (st\<lparr>timedOut := True, timerArmed := False\<rparr>))
             \<lparr>killed := True\<rparr>
      else st)"

text \<open>
  The child's output arrives as Buffers of bytes, and each listener decodes every Buffer
  on its own with \<open>data.toString('utf8')\<close>: a Buffer that ends inside a multi-byte
  character is decoded with replacement characters. \<open>Buffer.prototype.toString\<close> is a
  parameter of the model.
\<close>

type_synonym buffer = "8 word list"

text \<open>
  The listener of the child's stdout. A TypeError thrown by \<open>processStdoutLines\<close>
  leaves the listener; the assignments made before it stay.
\<close>

definition onStdoutData ::
  "json_parse \<Rightarrow> (buffer \<Rightarrow> jsstring) \<Rightarrow> buffer \<Rightarrow> proc_state \<Rightarrow> proc_state" where
  "onStdoutData parse toStringUtf8 data st = fst (processStdoutLines parse (toStringUtf8 data) st)"

definition onStderrData :: "(buffer \<Rightarrow> jsstring) \<Rightarrow> buffer \<Rightarrow> proc_state \<Rightarrow> proc_state" where
  "onStderrData toStringUtf8 data st = st\<lparr>stderrRaw := stderrRaw st @ toStringUtf8 data\<rparr>"

definition quoted :: "jsstring \<Rightarrow> jsstring" where
  "quoted s = [0x22] @ s @ [0x22]"

text \<open>
  The listener of the child's error event, with the errno code and the message of the
  error. \<open>notFoundCodes\<close> are the errno codes taken for a missing executable:
  \<open>ENOENT\<close> in codexCli.ts, \<open>ENOENT\<close> and \<open>EINVAL\<close> in the variant with candidates.
\<close>

definition onError ::
  "jsstring list \<Rightarrow> jsstring \<Rightarrow> jsstring option \<Rightarrow> jsstring \<Rightarrow> proc_state \<Rightarrow> proc_state" where
  "onError notFoundCodes cmd errno msg st =
     settle (\<lambda>s.
       if (case errno of None \<Rightarrow> False | Some c \<Rightarrow> c \<in> set notFoundCodes)
       then reject \<lparr>code = NotFound,
                    emessage = ascii ''Codex CLI was not found at '' @ quoted cmd @ ascii ''.'',
                    details = None\<rparr> s
       else reject \<lparr>code = ProcessFailed,
                    emessage = ascii ''Failed to launch Codex CLI: '' @ msg,
                    details = None\<rparr> s) st"

text \<open>
  The callback run by the close listener once settled. When the flush of the buffered
  line throws a TypeError, the callback is left before any \<open>reject\<close> or \<open>resolve\<close>:
  the state after the flush is the result.
\<close>

definition closeCallback ::
  "json_parse \<Rightarrow> (jsstring \<Rightarrow> jsstring) \<Rightarrow> CodexGenerateOptions \<Rightarrow> int option \<Rightarrow>
   proc_state \<Rightarrow> proc_state" where
  "closeCallback parse toLowerCase opts exitCode st =
     (let (st1, threw) =
            (if length (trim (stdoutBuffer st)) > 0
             then processStdoutLines parse [LF] st else (st, False))
      in if threw then st1
         else
          (let st2 = (if length (trim (stderrRaw st1)) > 0
                      then appendLog (LogStderrTail (tail (trim (stderrRaw st1)) 3000)) st1
                      else st1);
               st3 = (if length (trim (stdoutRaw st2)) > 0
                      then appendLog (LogStdoutTail (tail (trim (stdoutRaw st2)) 3000)) st2
                      else st2)
           in if timedOut st3
              then reject \<lparr>code = Timeout,
                           emessage = ascii ''Codex generation timed out after '' @
                                      showInt (timeoutMs opts) @ ascii '' ms.'',
                           details = None\<rparr> st3
              else if exitCode \<noteq> Some 0
              then (let combined = stderrRaw st3 @ [LF] @ stdoutRaw st3
                    in if isModelAccessError toLowerCase combined
                       then reject \<lparr>code = ModelAccess,
                                    emessage = ascii ''Model access error for '' @
                                               quoted (gmodel opts) @ ascii ''.'',
                                    details = Some (tail combined 4000)\<rparr> st3
                       else reject \<lparr>code = ProcessFailed,
                                    emessage = ascii ''Codex CLI exited with code '' @
                                               showExitCode exitCode @ ascii ''.'',
                                    details = Some (tail combined 4000)\<rparr> st3)
              else (case lastAgentMessage st3 of
                      None \<Rightarrow>
                        reject \<lparr>code = ParseFailed,
                                emessage = ascii ''No agent message was found in Codex JSON output.'',
                                details = None\<rparr> st3
                    | Some m \<Rightarrow>
                        if m = []
                        then reject \<lparr>code = ParseFailed,
                                     emessage = ascii ''No agent message was found in Codex JSON output.'',
                                     details = None\<rparr> st3
                        else (let normalized = normalizeGeneratedMessage m
                              in if normalized = []
                                 then reject \<lparr>code = EmptyResponse,
                                              emessage = ascii ''Generated message is empty after normalization.'',
                                              details = None\<rparr> st3
                                 else resolve normalized st3))))"

definition onClose ::
  "json_parse \<Rightarrow> (jsstring \<Rightarrow> jsstring) \<Rightarrow> CodexGenerateOptions \<Rightarrow> int option \<Rightarrow>
   proc_state \<Rightarrow> proc_state" where
  "onClose parse toLowerCase opts exitCode st =
     settle (closeCallback parse toLowerCase opts exitCode) st"

text \<open>What the event loop delivers to the executor after the child was spawned.\<close>

datatype proc_event =
    StdoutData buffer
  | StderrData buffer
  | TimerExpired
  | ErrorEvent "jsstring option" jsstring
  | Close "int option"

fun handleEvent ::
  "json_parse \<Rightarrow> (jsstring \<Rightarrow> jsstring) \<Rightarrow> (buffer \<Rightarrow> jsstring) \<Rightarrow> jsstring list \<Rightarrow> jsstring \<Rightarrow>
   CodexGenerateOptions \<Rightarrow> proc_event \<Rightarrow> proc_state \<Rightarrow> proc_state" where
  "handleEvent parse lc dec nf cmd opts (StdoutData data) st = onStdoutData parse dec data st"
| "handleEvent parse lc dec nf cmd opts (StderrData data) st = onStderrData dec data st"
| "handleEvent parse lc dec nf cmd opts TimerExpired st = onTimeout opts st"
| "handleEvent parse lc dec nf cmd opts (ErrorEvent errno msg) st = onError nf cmd errno msg st"
| "handleEvent parse lc dec nf cmd opts (Close exitCode) st = onClose parse lc opts exitCode st"

definition runEvents ::
  "json_parse \<Rightarrow> (jsstring \<Rightarrow> jsstring) \<Rightarrow> (buffer \<Rightarrow> jsstring) \<Rightarrow> jsstring list \<Rightarrow> jsstring \<Rightarrow>
   CodexGenerateOptions \<Rightarrow> proc_event list \<Rightarrow> proc_state \<Rightarrow> proc_state" where
  "runEvents parse lc dec nf cmd opts events st =
     fold (handleEvent parse lc dec nf cmd opts) events st"

text \<open>
  \<open>generateCommitMessageWithCodex\<close> of codexCli.ts: the child is spawned and the
  listeners handle the events; the result is the state of the promise.
\<close>

definition generateCommitMessageWithCodex ::
  "json_parse \<Rightarrow> (jsstring \<Rightarrow> jsstring) \<Rightarrow> (buffer \<Rightarrow> jsstring) \<Rightarrow> CodexGenerateOptions \<Rightarrow>
   proc_event list \<Rightarrow> (CodexCliError + jsstring) option" where
  "generateCommitMessageWithCodex parse lc dec opts events =
     outcome (runEvents parse lc dec [ascii ''ENOENT''] (commandPath opts) opts events
                initialProcState)"

text \<open>
  \<open>runCodexWithCommand\<close> of the variant with candidates: \<open>spawn\<close> may throw (\<open>Inl\<close>
  with the errno code and the message), otherwise the events of the child follow.
\<close>

definition runCodexWithCommand ::
  "json_parse \<Rightarrow> (jsstring \<Rightarrow> jsstring) \<Rightarrow> (buffer \<Rightarrow> jsstring) \<Rightarrow> jsstring \<Rightarrow> CodexGenerateOptions \<Rightarrow>
   (jsstring option \<times> jsstring) + proc_event list \<Rightarrow> (CodexCliError + jsstring) option" where
  "runCodexWithCommand parse lc dec cmd opts behaviour =
     (case behaviour of
        Inl (errno, msg) \<Rightarrow>
          (if (case errno of None \<Rightarrow> False | Some c \<Rightarrow> c \<in> {ascii ''ENOENT'', ascii ''EINVAL''})
           then Some (Inl \<lparr>code = NotFound,
                           emessage = ascii ''Codex CLI was not found or not executable at '' @
                                      quoted cmd @ ascii ''.'',
                           details = Some msg\<rparr>)
           else Some (Inl \<lparr>code = ProcessFailed,
                           emessage = ascii ''Failed to launch Codex CLI: '' @ msg,
                           details = None\<rparr>))
      | Inr events \<Rightarrow>
          outcome (runEvents parse lc dec [ascii ''ENOENT'', ascii ''EINVAL''] cmd opts events
                     initialProcState))"

text \<open>
  The loop over the candidates of \<open>generateCommitMessageWithCodex\<close> in the variant
  with candidates. \<open>run\<close> is the result of \<open>runCodexWithCommand\<close> for a candidate
  (\<open>None\<close>: its promise never settles). The first component lists the candidates that
  were run, in order.
\<close>

fun tryCandidates ::
  "(jsstring \<Rightarrow> (CodexCliError + jsstring) option) \<Rightarrow> jsstring list \<Rightarrow> CodexCliError option \<Rightarrow>
   jsstring list \<times> CodexCliError option \<times> (CodexCliError + jsstring) option option" where
  "tryCandidates run [] lastNotFoundError = ([], lastNotFoundError, None)"
| "tryCandidates run (c # cs) lastNotFoundError =
     (case run c of
        None \<Rightarrow> ([c], lastNotFoundError, Some None)
      | Some (Inr m) \<Rightarrow> ([c], lastNotFoundError, Some (Some (Inr m)))
      | Some (Inl e) \<Rightarrow>
          (if code e = NotFound
           then (let (tried, l, r) = tryCandidates run cs (Some e) in (c # tried, l, r))
           else ([c], lastNotFoundError, Some (Some (Inl e)))))"

text \<open>
  \<open>generateCommitMessageWithCodex\<close> of the variant with candidates;
  \<open>commandCandidates\<close> is the list built by \<open>buildCommandCandidates\<close> from the
  configured path, the platform and the file system.
\<close>

definition generateWithCandidates ::
  "(jsstring \<Rightarrow> (CodexCliError + jsstring) option) \<Rightarrow> jsstring list \<Rightarrow> CodexGenerateOptions \<Rightarrow>
   jsstring list \<times> (CodexCliError + jsstring) option" where
  "generateWithCandidates run commandCandidates opts =
     (case tryCandidates run commandCandidates None of
        (tried, _, Some r) \<Rightarrow> (tried, r)
      | (tried, Some lastNotFoundError, None) \<Rightarrow> (tried, Some (Inl lastNotFoundError))
      | (tried, None, None) \<Rightarrow>
          (tried, Some (Inl \<lparr>code = NotFound,
                             emessage = ascii ''Codex CLI was not found at '' @
                                        quoted (commandPath opts) @ ascii ''.'',
                             details = Some (ascii ''No executable candidate could be resolved.'')\<rparr>)))"

text \<open>
  The text of the last completed agent message in the whole standard output of the
  child, and whether a line makes the loop throw.
\<close>

definition lastAgentMessageOf :: "json_parse \<Rightarrow> jsstring \<Rightarrow> jsstring option" where
  "lastAgentMessageOf parse out = snd (scanLines parse (splitLines out) None)"

definition throwsOn :: "json_parse \<Rightarrow> jsstring \<Rightarrow> bool" where
  "throwsOn parse line = (parse (trim line) = Some JNull \<and> trim line \<noteq> [])"

text \<open>
  The agent messages as the specification words them: an event is significant only when
  it is an object whose \<open>type\<close> is \<open>item.completed\<close> and whose \<open>item\<close> is an object with
  \<open>type\<close> \<open>agent_message\<close> and a string \<open>text\<close>. \<open>spec_agentTexts\<close> lists the texts of the
  significant events of an output in the order of their lines; blank lines and lines
  that are not JSON carry none.
\<close>

definition spec_agentText :: "json \<Rightarrow> jsstring option" where
  "spec_agentText event =
     (case event of
        JObj kvs \<Rightarrow>
          (if map_of kvs (ascii ''type'') = Some (JStr (ascii ''item.completed''))
           then (case map_of kvs (ascii ''item'') of
                   Some (JObj ivs) \<Rightarrow>
                     (if map_of ivs (ascii ''type'') = Some (JStr (ascii ''agent_message''))
                      then (case map_of ivs (ascii ''text'') of
                              Some (JStr t) \<Rightarrow> Some t
                            | _ \<Rightarrow> None)
                      else None)
                 | _ \<Rightarrow> None)
           else None)
      | _ \<Rightarrow> None)"

definition spec_lineText :: "json_parse \<Rightarrow> jsstring \<Rightarrow> jsstring option" where
  "spec_lineText parse line =
     (case parse (trim line) of None \<Rightarrow> None | Some event \<Rightarrow> spec_agentText event)"

definition spec_agentTexts :: "json_parse \<Rightarrow> jsstring \<Rightarrow> jsstring list" where
  "spec_agentTexts parse out =
     List.map_filter (spec_lineText parse) (filter (\<lambda>line. trim line \<noteq> []) (splitLines out))"

text \<open>
  The text the stdout listener has received: the Buffers of standard output among the
  events, each decoded on its own, one after the other.
\<close>

fun stdoutOf :: "(buffer \<Rightarrow> jsstring) \<Rightarrow> proc_event list \<Rightarrow> jsstring" where
  "stdoutOf dec [] = []"
| "stdoutOf dec (StdoutData data # es) = dec data @ stdoutOf dec es"
| "stdoutOf dec (e # es) = stdoutOf dec es"

fun isData :: "proc_event \<Rightarrow> bool" where
  "isData (StdoutData data) = True"
| "isData (StderrData data) = True"
| "isData e = False"

text \<open>
  The normalization as the specification words it: surrounding whitespace is stripped,
  one quote character is stripped at each end, and the first non-blank line is returned.
\<close>

definition spec_stripOneQuoteLayer :: "jsstring \<Rightarrow> jsstring" where
  "spec_stripOneQuoteLayer s =
     (let s1 = (case s of [] \<Rightarrow> [] | c # r \<Rightarrow> if isQuote c then r else s)
      in if s1 \<noteq> [] \<and> isQuote (last s1) then butlast s1 else s1)"

definition spec_normalize :: "jsstring \<Rightarrow> jsstring" where
  "spec_normalize raw =
     (case find (\<lambda>line. trim line \<noteq> []) (splitLines (spec_stripOneQuoteLayer (trim raw))) of
        Some l \<Rightarrow> trim l
      | None \<Rightarrow> [])"

text \<open>
  The first statement of the close callback, the flush of the buffered line: the state
  after it and whether it threw.
\<close>

definition flushed :: "json_parse \<Rightarrow> proc_state \<Rightarrow> proc_state \<times> bool" where
  "flushed parse st =
     (if length (trim (stdoutBuffer st)) > 0 then processStdoutLines parse [LF] st else (st, False))"

text \<open>A candidate whose run is rejected with an error of kind \<open>not-found\<close>.\<close>

definition failsNotFound :: "(jsstring \<Rightarrow> (CodexCliError + jsstring) option) \<Rightarrow> jsstring \<Rightarrow> bool" where
  "failsNotFound run c = (case run c of Some (Inl e) \<Rightarrow> code e = NotFound | _ \<Rightarrow> False)"

section \<open>Settings, pending state and effects (extension.ts, state.ts)\<close>

text \<open>
  The values \<open>config.get\<close> returns for the keys of the extension, defaults applied.
\<close>

record Configuration =
  cfgModel :: jsstring
  cfgReasoningEffort :: jsstring
  cfgIncludeUntracked :: bool
  cfgDiffMaxChars :: int
  cfgTimeoutSeconds :: int
  cfgCodexCommandPath :: jsstring
  cfgAutoCommitAfterGenerate :: bool
  cfgPushRemote :: jsstring
  cfgPushBranch :: jsstring

record ExtensionSettings =
  model :: jsstring
  reasoningEffort :: jsstring
  includeUntrackedSetting :: bool
  diffMaxChars :: int
  timeoutSeconds :: int
  codexCommandPath :: jsstring
  autoCommitAfterGenerate :: bool
  pushRemote :: jsstring
  pushBranch :: jsstring

definition getSettings :: "Configuration \<Rightarrow> ExtensionSettings" where
  "getSettings config =
     \<lparr>model = cfgModel config,
      reasoningEffort =
        (if cfgReasoningEffort config \<in>
              set [ascii ''minimal'', ascii ''low'', ascii ''medium'', ascii ''high'']
         then cfgReasoningEffort config else ascii ''high''),
      includeUntrackedSetting = cfgIncludeUntracked config,
      diffMaxChars = max 1000 (cfgDiffMaxChars config),
      timeoutSeconds = max 10 (cfgTimeoutSeconds config),
      codexCommandPath = cfgCodexCommandPath config,
      autoCommitAfterGenerate = cfgAutoCommitAfterGenerate config,
      pushRemote = cfgPushRemote config,
      pushBranch = cfgPushBranch config\<rparr>"

definition firstLine :: "jsstring \<Rightarrow> jsstring" where
  "firstLine txt = (case splitLines txt of [] \<Rightarrow> [] | l # _ \<Rightarrow> trim l)"

record PendingGeneratedCommit =
  message :: jsstring
  createdAt :: int

record GitBranch =
  name :: "jsstring option"
  commit :: "jsstring option"

record GitCommit =
  hash :: jsstring
  cmessage :: jsstring

text \<open>
  A repository of the Git extension: the path of its root and its key,
  \<open>repositoryKey(repository)\<close>, which Node's \<open>path.normalize\<close> computes from the path
  (lower-cased on win32).
\<close>

record GitRepository =
  fsPath :: jsstring
  repoKey :: jsstring

text \<open>Messages shown to the user and lines written to the output channel.\<close>

datatype notice =
    NoLatestCommit
  | MessageMismatch
  | BranchMismatch jsstring jsstring
  | Pushed jsstring jsstring
  | PushRejected jsstring
  | PushFailed jsstring
  | NoRepository
  | DiffCollectFailed jsstring
  | NoDiff
  | MessageEntered jsstring jsstring
  | NothingToCommit
  | CodexNotFound
  | CodexTimeout int
  | CodexModelAccess jsstring
  | CodexNoMessage
  | CodexFailed jsstring
  | GenerateFailed jsstring

datatype out_line =
    OutHeadUnavailable
  | OutMessageMismatch jsstring jsstring
  | OutBranchMismatch jsstring jsstring
  | OutExecutingPush jsstring jsstring
  | OutPushSucceeded
  | OutPushFailed jsstring
  | OutDiff diff_log
  | OutDiffFailed jsstring
  | OutTruncated int
  | OutGenerated jsstring
  | OutAutoCommitStarted
  | OutStaging jsstring
  | OutAutoCommitCompleted
  | OutErrorDetails
  | OutAutoCommitSkipped jsstring
  | OutCodexError CodexCliErrorCode jsstring
  | OutCodexDetails jsstring
  | OutUnexpected jsstring

datatype effect =
    CallGetCommit jsstring
  | CallPush jsstring jsstring bool
  | ShowWarning notice
  | ShowInformation notice
  | ShowError notice
  | Output out_line
  | SetInputBox jsstring jsstring
  | CallCollectDiff jsstring
  | CallBuildPrompt jsstring
  | CallGenerator CodexGenerateOptions
  | CallStage jsstring
  | CallCommit jsstring

text \<open>
  The state owned by the extension: the map of \<open>PendingCommitState\<close>, the set
  \<open>pushInFlight\<close>, and the calls and messages issued so far, in order.
\<close>

record ext_state =
  pendingByRepository :: "jsstring \<rightharpoonup> PendingGeneratedCommit"
  pushInFlight :: "jsstring set"
  effects :: "effect list"

definition emit :: "effect list \<Rightarrow> ext_state \<Rightarrow> ext_state" where
  "emit es st = st\<lparr>effects := effects st @ es\<rparr>"

definition pendingSet :: "jsstring \<Rightarrow> PendingGeneratedCommit \<Rightarrow> ext_state \<Rightarrow> ext_state" where
  "pendingSet key p st = st\<lparr>pendingByRepository := (pendingByRepository st)(key \<mapsto> p)\<rparr>"

definition pendingGet :: "jsstring \<Rightarrow> ext_state \<Rightarrow> PendingGeneratedCommit option" where
  "pendingGet key st = pendingByRepository st key"

definition pendingClear :: "jsstring \<Rightarrow> ext_state \<Rightarrow> ext_state" where
  "pendingClear key st = st\<lparr>pendingByRepository := (pendingByRepository st)(key := None)\<rparr>"

text \<open>
  A regular expression with the flag \<open>i\<close> and no flag \<open>u\<close> matches an ASCII letter of
  the pattern against the two ASCII letters only.
\<close>

definition asciiLower :: "16 word \<Rightarrow> 16 word" where
  "asciiLower c = (if 0x41 \<le> c \<and> c \<le> 0x5A then c + 0x20 else c)"

definition testAnyIgnoreCase :: "string list \<Rightarrow> jsstring \<Rightarrow> bool" where
  "testAnyIgnoreCase alternatives txt =
     list_ex (\<lambda>a. includesStr (map asciiLower txt) (ascii a)) alternatives"

section \<open>Commit-event gate (handleCommitEvent)\<close>

text \<open>
  What the gate reads from outside: the configuration, the answers of
  \<open>repository.getCommit\<close> (\<open>Inl\<close>: the promise rejects), \<open>repository.state.HEAD\<close>, and
  the outcome of \<open>repository.push\<close> (\<open>Some msg\<close>: the promise rejects with that message).
\<close>

record gate_env =
  config :: Configuration
  getCommit :: "jsstring \<Rightarrow> jsstring + GitCommit"
  HEAD :: "GitBranch option"
  pushOutcome :: "jsstring option"

definition isRejected :: "jsstring \<Rightarrow> bool" where
  "isRejected msg =
     testAnyIgnoreCase [''rejected'', ''non-fast-forward'', ''failed to push'',
                        ''cannot lock ref'', ''updates were rejected''] msg"

text \<open>The catch block of \<open>handleCommitEvent\<close>.\<close>

definition catchPush :: "jsstring \<Rightarrow> ext_state \<Rightarrow> ext_state" where
  "catchPush msg st =
     emit [if isRejected msg then ShowError (PushRejected msg) else ShowError (PushFailed msg),
           Output (OutPushFailed msg)] st"

text \<open>The finally block of \<open>handleCommitEvent\<close>.\<close>

definition finallyGate :: "jsstring \<Rightarrow> ext_state \<Rightarrow> ext_state" where
  "finallyGate key st =
     (pendingClear key st)\<lparr>pushInFlight := pushInFlight (pendingClear key st) - {key}\<rparr>"

definition orUnknown :: "jsstring \<Rightarrow> jsstring" where
  "orUnknown s = (if s = [] then ascii ''unknown'' else s)"

definition currentBranchName :: "GitBranch option \<Rightarrow> jsstring" where
  "currentBranchName head =
     (case head of None \<Rightarrow> [] | Some h \<Rightarrow> (case name h of None \<Rightarrow> [] | Some n \<Rightarrow> n))"

text \<open>
  From the latest commit to the call of \<open>repository.push\<close>: the two comparisons. The
  flag tells whether push was called (and is awaited) or the function returned.
\<close>

definition compareAndPush ::
  "ExtensionSettings \<Rightarrow> PendingGeneratedCommit \<Rightarrow> bool \<Rightarrow> GitBranch option \<Rightarrow> GitCommit \<Rightarrow>
   ext_state \<Rightarrow> bool \<times> ext_state" where
  "compareAndPush settings pending showSkipNotification head latestCommit st =
     (let latestMessage = firstLine (cmessage latestCommit)
      in if latestMessage \<noteq> trim (message pending)
         then (False,
               emit ([Output (OutMessageMismatch latestMessage (message pending))] @
                     (if showSkipNotification then [ShowInformation MessageMismatch] else [])) st)
         else
          (let cur = currentBranchName head
           in if cur \<noteq> pushBranch settings
              then (False,
                    emit ((if showSkipNotification
                           then [ShowInformation (BranchMismatch (orUnknown cur) (pushBranch settings))]
                           else []) @
                          [Output (OutBranchMismatch (orUnknown cur) (pushBranch settings))]) st)
              else (True,
                    emit [Output (OutExecutingPush (pushRemote settings) (pushBranch settings)),
                          CallPush (pushRemote settings) (pushBranch settings) False] st)))"

text \<open>After the awaited push: the rest of the try block, or the catch block.\<close>

definition afterPush :: "ExtensionSettings \<Rightarrow> jsstring option \<Rightarrow> ext_state \<Rightarrow> ext_state" where
  "afterPush settings pushed st =
     (case pushed of
        None \<Rightarrow> emit [ShowInformation (Pushed (pushRemote settings) (pushBranch settings)),
                       Output OutPushSucceeded] st
      | Some msg \<Rightarrow> catchPush msg st)"

definition headUnavailable :: "bool \<Rightarrow> ext_state \<Rightarrow> ext_state" where
  "headUnavailable showSkipNotification st =
     emit ([Output OutHeadUnavailable] @
           (if showSkipNotification then [ShowWarning NoLatestCommit] else [])) st"

text \<open>\<open>repository.state.HEAD?.commit\<close>, where undefined and the empty string are falsy.\<close>

definition headCommitOf :: "GitBranch option \<Rightarrow> jsstring option" where
  "headCommitOf head =
     (case head of
        None \<Rightarrow> None
      | Some h \<Rightarrow> (case commit h of None \<Rightarrow> None | Some c \<Rightarrow> if c = [] then None else Some c))"

text \<open>
  \<open>handleCommitEvent\<close>, run without another task of the extension in between: every
  awaited promise is answered by the same environment.
\<close>

definition handleCommitEvent :: "gate_env \<Rightarrow> jsstring \<Rightarrow> bool \<Rightarrow> ext_state \<Rightarrow> ext_state" where
  "handleCommitEvent env key showSkipNotification st =
     (case pendingGet key st of
        None \<Rightarrow> st
      | Some pending \<Rightarrow>
          if key \<in> pushInFlight st then st
          else
           (let st1 = st\<lparr>pushInFlight := insert key (pushInFlight st)\<rparr>;
                settings = getSettings (config env);
                st2 = emit [CallGetCommit (ascii ''HEAD'')] st1;
                afterCommit = (\<lambda>latestCommit s.
                   (case compareAndPush settings pending showSkipNotification (HEAD env)
                           latestCommit s of
                      (False, s') \<Rightarrow> s'
                    | (True, s') \<Rightarrow> afterPush settings (pushOutcome env) s'))
            in finallyGate key
                 (case getCommit env (ascii ''HEAD'') of
                    Inr latestCommit \<Rightarrow> afterCommit latestCommit st2
                  | Inl _ \<Rightarrow>
                      (case headCommitOf (HEAD env) of
                         None \<Rightarrow> headUnavailable showSkipNotification st2
                       | Some headCommit \<Rightarrow>
                           (let st3 = emit [CallGetCommit headCommit] st2
                            in case getCommit env headCommit of
                                 Inr latestCommit \<Rightarrow> afterCommit latestCommit st3
                               | Inl msg \<Rightarrow> catchPush msg st3)))))"

text \<open>
  The same function cut at its \<open>await\<close>s. Between two \<open>await\<close>s the code runs without
  interruption; at an \<open>await\<close> other tasks of the extension may run. A task is at the
  start, waits for \<open>getCommit('HEAD')\<close>, for \<open>getCommit(headCommit)\<close> or for \<open>push\<close>
  (with the local variables it still needs), or has returned.
\<close>

datatype gate_pc =
    GStart
  | GAwaitHead ExtensionSettings PendingGeneratedCommit
  | GAwaitFallback ExtensionSettings PendingGeneratedCommit jsstring
  | GAwaitPush ExtensionSettings
  | GDone

definition continueWithCommit ::
  "gate_env \<Rightarrow> jsstring \<Rightarrow> bool \<Rightarrow> ExtensionSettings \<Rightarrow> PendingGeneratedCommit \<Rightarrow> GitCommit \<Rightarrow>
   ext_state \<Rightarrow> gate_pc \<times> ext_state" where
  "continueWithCommit env key showSkipNotification settings pending latestCommit st =
     (case compareAndPush settings pending showSkipNotification (HEAD env) latestCommit st of
        (False, s') \<Rightarrow> (GDone, finallyGate key s')
      | (True, s') \<Rightarrow> (GAwaitPush settings, s'))"

fun gateStep :: "gate_env \<Rightarrow> jsstring \<Rightarrow> bool \<Rightarrow> gate_pc \<times> ext_state \<Rightarrow> gate_pc \<times> ext_state" where
  "gateStep env key showSkip (GStart, st) =
     (case pendingGet key st of
        None \<Rightarrow> (GDone, st)
      | Some pending \<Rightarrow>
          if key \<in> pushInFlight st then (GDone, st)
          else (GAwaitHead (getSettings (config env)) pending,
                emit [CallGetCommit (ascii ''HEAD'')]
                  (st\<lparr>pushInFlight := insert key (pushInFlight st)\<rparr>)))"
| "gateStep env key showSkip (GAwaitHead settings pending, st) =
     (case getCommit env (ascii ''HEAD'') of
        Inr latestCommit \<Rightarrow> continueWithCommit env key showSkip settings pending latestCommit st
      | Inl _ \<Rightarrow>
          (case headCommitOf (HEAD env) of
             None \<Rightarrow> (GDone, finallyGate key (headUnavailable showSkip st))
           | Some headCommit \<Rightarrow>
               (GAwaitFallback settings pending headCommit, emit [CallGetCommit headCommit] st)))"
| "gateStep env key showSkip (GAwaitFallback settings pending headCommit, st) =
     (case getCommit env headCommit of
        Inr latestCommit \<Rightarrow> continueWithCommit env key showSkip settings pending latestCommit st
      | Inl msg \<Rightarrow> (GDone, finallyGate key (catchPush msg st)))"
| "gateStep env key showSkip (GAwaitPush settings, st) =
     (GDone, finallyGate key (afterPush settings (pushOutcome env) st))"
| "gateStep env key showSkip (GDone, st) = (GDone, st)"

text \<open>
  Two commit notifications for one repository, handled as two tasks over the shared
  state. A schedule says which task runs next (\<open>True\<close>: the first) and what the
  environment answers at that moment.
\<close>

fun runTwo ::
  "jsstring \<Rightarrow> bool \<Rightarrow> bool \<Rightarrow> (bool \<times> gate_env) list \<Rightarrow> gate_pc \<times> gate_pc \<times> ext_state \<Rightarrow>
   gate_pc \<times> gate_pc \<times> ext_state" where
  "runTwo key show1 show2 [] cfg = cfg"
| "runTwo key show1 show2 ((first, env) # sched) (pc1, pc2, st) =
     (if first
      then (case gateStep env key show1 (pc1, st) of
              (pc1', st') \<Rightarrow> runTwo key show1 show2 sched (pc1', pc2, st'))
      else (case gateStep env key show2 (pc2, st) of
              (pc2', st') \<Rightarrow> runTwo key show1 show2 sched (pc1, pc2', st')))"

definition isPush :: "effect \<Rightarrow> bool" where
  "isPush e = (case e of CallPush _ _ _ \<Rightarrow> True | _ \<Rightarrow> False)"

definition pushCount :: "ext_state \<Rightarrow> nat" where
  "pushCount st = length (filter isPush (effects st))"

text \<open>
  The latest commit, as the claims speak of it: the commit the reference \<open>HEAD\<close> names
  or, when that lookup fails, the commit named by the hash of the head the repository
  knows of, if it knows a non-empty one and that lookup succeeds.
\<close>

definition latestCommitOf :: "gate_env \<Rightarrow> GitCommit option" where
  "latestCommitOf env =
     (case getCommit env (ascii ''HEAD'') of
        Inr c \<Rightarrow> Some c
      | Inl _ \<Rightarrow>
          (case HEAD env of
             None \<Rightarrow> None
           | Some h \<Rightarrow>
               (case commit h of
                  None \<Rightarrow> None
                | Some headHash \<Rightarrow>
                    if headHash = [] then None
                    else (case getCommit env headHash of Inr c \<Rightarrow> Some c | Inl _ \<Rightarrow> None))))"

text \<open>The calls of \<open>repository.push\<close> issued so far.\<close>

definition pushes :: "ext_state \<Rightarrow> effect list" where
  "pushes st = filter isPush (effects st)"

text \<open>Where a task of the gate stands.\<close>

definition active :: "gate_pc \<Rightarrow> bool" where
  "active pc = (pc \<noteq> GStart \<and> pc \<noteq> GDone)"

definition prePush :: "gate_pc \<Rightarrow> bool" where
  "prePush pc = (case pc of GAwaitHead _ _ \<Rightarrow> True | GAwaitFallback _ _ _ \<Rightarrow> True | _ \<Rightarrow> False)"

definition awaitsPush :: "gate_pc \<Rightarrow> bool" where
  "awaitsPush pc = (case pc of GAwaitPush _ \<Rightarrow> True | _ \<Rightarrow> False)"

text \<open>
  The invariant of two tasks of the gate for one repository, where \<open>n0\<close> pushes were
  issued before them: a task between its first and last step holds the guard, at most
  one task does, and once a push was issued no task stands before the comparisons and
  either the guard is held or the pending entry is gone.
\<close>

definition gateInv :: "jsstring \<Rightarrow> nat \<Rightarrow> gate_pc \<times> gate_pc \<times> ext_state \<Rightarrow> bool" where
  "gateInv key n0 cfg =
     (case cfg of (pc1, pc2, st) \<Rightarrow>
        (active pc1 \<longrightarrow> key \<in> pushInFlight st) \<and>
        (active pc2 \<longrightarrow> key \<in> pushInFlight st) \<and>
        \<not> (active pc1 \<and> active pc2) \<and>
        pushCount st \<le> n0 + 1 \<and>
        (pushCount st = n0 + 1 \<longrightarrow>
           (key \<in> pushInFlight st \<or> pendingGet key st = None) \<and>
           \<not> prePush pc1 \<and> \<not> prePush pc2))"

section \<open>Prompt builder and orchestrator (prompt.ts, handleGenerateCommand)\<close>

definition buildCommitMessagePrompt :: "jsstring \<Rightarrow> jsstring" where
  "buildCommitMessagePrompt dt =
     join [LF]
       [ascii ''You generate git commit messages.'',
        ascii ''Create a single commit message line from the provided diff.'',
        [],
        ascii ''Strict output rules:'',
        ascii ''- Output exactly one line.'',
        ascii ''- Japanese only.'',
        ascii ''- 30 to 50 characters.'',
        ascii ''- No markdown.'',
        ascii ''- No quotes.'',
        ascii ''- No bullets.'',
        ascii ''- No prefixes like feat/fix/chore.'',
        ascii ''- Focus on concrete code changes.'',
        [],
        ascii ''Return only the final commit message line.'',
        [],
        ascii ''<diff>'',
        dt,
        ascii ''</diff>'']"

definition isNoChangesCommitError :: "jsstring \<Rightarrow> bool" where
  "isNoChangesCommitError msg =
     testAnyIgnoreCase [''nothing to commit'', ''no changes added'', ''working tree clean'',
                        ''empty commit message''] msg"

text \<open>What the try block of \<open>handleGenerateCommand\<close> can throw.\<close>

datatype thrown =
    ThrownCodex CodexCliError
  | ThrownError jsstring

definition toErrorMessage :: "thrown \<Rightarrow> jsstring" where
  "toErrorMessage err = (case err of ThrownCodex e \<Rightarrow> emessage e | ThrownError m \<Rightarrow> m)"

text \<open>
  What the command reads from outside: the repository \<open>resolveRepository\<close> yields, the
  configuration, the \<open>git\<close> executable, the promise of
  \<open>generateCommitMessageWithCodex\<close> (\<open>None\<close>: it never settles), the outcome of
  \<open>repository.commit\<close> (\<open>Some msg\<close>: it rejects), the clock, and the environment of
  the gate called at the end.
\<close>

record gen_env =
  resolved :: "GitRepository option"
  gconfig :: Configuration
  git :: git_exec
  generator :: "CodexGenerateOptions \<Rightarrow> (CodexCliError + jsstring) option"
  commitOutcome :: "jsstring \<Rightarrow> jsstring option"
  now :: int
  gate :: gate_env

text \<open>The catch block of \<open>handleGenerateCommand\<close>.\<close>

definition catchGenerate :: "ExtensionSettings \<Rightarrow> jsstring \<Rightarrow> thrown \<Rightarrow> ext_state \<Rightarrow> ext_state" where
  "catchGenerate settings key err st =
     (let st1 = pendingClear key st;
          errorMessage = toErrorMessage err;
          st2 = emit [Output OutErrorDetails] st1
      in if isNoChangesCommitError errorMessage
         then emit [ShowWarning NothingToCommit, Output (OutAutoCommitSkipped errorMessage)] st2
         else
          (case err of
             ThrownCodex e \<Rightarrow>
               emit ([ShowError
                        (case code e of
                           NotFound \<Rightarrow> CodexNotFound
                         | Timeout \<Rightarrow> CodexTimeout (timeoutSeconds settings)
                         | ModelAccess \<Rightarrow> CodexModelAccess (model settings)
                         | ParseFailed \<Rightarrow> CodexNoMessage
                         | EmptyResponse \<Rightarrow> CodexNoMessage
                         | ProcessFailed \<Rightarrow> CodexFailed (emessage e)),
                      Output (OutCodexError (code e) (emessage e))] @
                     (case details e of
                        None \<Rightarrow> []
                      | Some d \<Rightarrow> if d = [] then [] else [Output (OutCodexDetails d)])) st2
           | ThrownError m \<Rightarrow>
               emit [Output (OutUnexpected errorMessage), ShowError (GenerateFailed errorMessage)] st2))"

definition stageAllChangesWithGitCli :: "git_exec \<Rightarrow> jsstring \<Rightarrow> jsstring + jsstring" where
  "stageAllChangesWithGitCli g repoPath =
     g [ascii ''-C'', repoPath, ascii ''add'', ascii ''-A'', ascii ''--'', ascii ''.'']"

text \<open>The two option objects the command builds.\<close>

definition collectOptionsFor :: "ExtensionSettings \<Rightarrow> jsstring \<Rightarrow> DiffCollectOptions" where
  "collectOptionsFor settings path =
     \<lparr>repositoryPath = path,
      includeUntracked = includeUntrackedSetting settings,
      maxChars = diffMaxChars settings\<rparr>"

definition codexOptionsFor :: "ExtensionSettings \<Rightarrow> jsstring \<Rightarrow> jsstring \<Rightarrow> CodexGenerateOptions" where
  "codexOptionsFor settings path dt =
     \<lparr>commandPath = codexCommandPath settings,
      gmodel = model settings,
      greasoningEffort = reasoningEffort settings,
      prompt = buildCommitMessagePrompt dt,
      cwd = path,
      timeoutMs = timeoutSeconds settings * 1000\<rparr>"

text \<open>The calls of the prompt builder and of the generator among the effects.\<close>

definition isGenerationCall :: "effect \<Rightarrow> bool" where
  "isGenerationCall e =
     (case e of CallBuildPrompt _ \<Rightarrow> True | CallGenerator _ \<Rightarrow> True | _ \<Rightarrow> False)"

text \<open>
  \<open>handleGenerateCommand\<close>. The flag of the result tells whether the command returned:
  it does not when the promise of the generator never settles.
\<close>

definition handleGenerateCommand :: "gen_env \<Rightarrow> ext_state \<Rightarrow> bool \<times> ext_state" where
  "handleGenerateCommand env st =
     (case resolved env of
        None \<Rightarrow> (True, emit [ShowWarning NoRepository] st)
      | Some repository \<Rightarrow>
         (let settings = getSettings (gconfig env);
              path = fsPath repository;
              key = repoKey repository;
              (dlog, collected) =
                 collectDiffForPrompt (git env) (collectOptionsFor settings path);
              st1 = emit (CallCollectDiff path # map (\<lambda>l. Output (OutDiff l)) dlog) st
          in case collected of
               Inl msg \<Rightarrow> (True, emit [Output (OutDiffFailed msg), ShowError (DiffCollectFailed msg)] st1)
             | Inr diffResult \<Rightarrow>
                 if trim (diffText diffResult) = []
                 then (True, emit [ShowInformation NoDiff] st1)
                 else
                  (let st2 = (if wasTruncated diffResult
                              then emit [Output (OutTruncated (diffMaxChars settings))] st1
                              else st1);
                       st3 = emit [CallBuildPrompt (diffText diffResult)] st2;
                       opts = codexOptionsFor settings path (diffText diffResult);
                       st4 = emit [CallGenerator opts] st3
                   in case generator env opts of
                        None \<Rightarrow> (False, st4)
                      | Some (Inl e) \<Rightarrow> (True, catchGenerate settings key (ThrownCodex e) st4)
                      | Some (Inr msg) \<Rightarrow>
                         (let st5 = emit [SetInputBox key msg] st4;
                              st6 = pendingSet key \<lparr>message = msg, createdAt = now env\<rparr> st5;
                              st7 = emit [Output (OutGenerated msg)] st6
                          in if \<not> autoCommitAfterGenerate settings
                             then (True,
                                   emit [ShowInformation
                                           (MessageEntered (pushRemote settings) (pushBranch settings))] st7)
                             else
                              (let st8 = emit [Output OutAutoCommitStarted, Output (OutStaging path),
                                               CallStage path] st7
                               in case stageAllChangesWithGitCli (git env) path of
                                    Inl e \<Rightarrow> (True, catchGenerate settings key (ThrownError e) st8)
                                  | Inr _ \<Rightarrow>
                                     (let st9 = emit [CallCommit msg] st8
                                      in case commitOutcome env msg of
                                           Some e \<Rightarrow>
                                             (True, catchGenerate settings key (ThrownError e) st9)
                                         | None \<Rightarrow>
                                             (True,
                                              handleCommitEvent (gate env) key True
                                                (emit [Output OutAutoCommitCompleted] st9))))))))"

section \<open>Concrete inputs\<close>

text \<open>A repository whose tracked diff has 2000 characters, collected with the cap 1000.\<close>

definition exampleGit :: git_exec where
  "exampleGit args = Inr (replicate 2000 0x61)"

definition exampleOptions :: DiffCollectOptions where
  "exampleOptions = \<lparr>repositoryPath = ascii ''/r'', includeUntracked = False, maxChars = 1000\<rparr>"

definition exampleResult :: DiffCollectResult where
  "exampleResult =
     \<lparr>diffText = take 1000 (ascii ''## Tracked Diff'' @ [LF] @ replicate 2000 0x61) @
                  TRUNCATION_MARKER,
      trackedDiff = replicate 2000 0x61, untrackedFiles = [], wasTruncated = True\<rparr>"

definition collectedLength :: "git_exec \<Rightarrow> DiffCollectOptions \<Rightarrow> int option" where
  "collectedLength g opts =
     (case snd (collectDiffForPrompt g opts) of
        Inl _ \<Rightarrow> None
      | Inr r \<Rightarrow> Some (int (length (diffText r))))"

text \<open>
  Buffers of ASCII bytes, and a decoder that agrees with \<open>toString('utf8')\<close> on them,
  the only Buffers used below.
\<close>

definition asciiBytes :: "string \<Rightarrow> buffer" where
  "asciiBytes s = map (\<lambda>c. of_nat (of_char c)) s"

definition asciiDecode :: "buffer \<Rightarrow> jsstring" where
  "asciiDecode data = map (\<lambda>b. if b < 0x80 then of_nat (unat b) else 0xFFFD) data"

text \<open>
  Two candidates for the generator, on a machine where \<open>spawn\<close> throws for every
  command with the given errno code.
\<close>

definition exampleGenOptions :: CodexGenerateOptions where
  "exampleGenOptions =
     \<lparr>commandPath = ascii ''codex'', gmodel = ascii ''m'', greasoningEffort = ascii ''high'',
      prompt = ascii ''p'', cwd = ascii ''/r'', timeoutMs = 10000\<rparr>"

definition exampleCandidates :: "jsstring list" where
  "exampleCandidates = [ascii ''codex'', ascii ''codex.exe'']"

definition exampleSpawnFails :: "jsstring \<Rightarrow> jsstring \<Rightarrow> (CodexCliError + jsstring) option" where
  "exampleSpawnFails errno cmd =
     runCodexWithCommand (\<lambda>line. None) (\<lambda>s. s) asciiDecode cmd exampleGenOptions
       (Inl (Some errno, ascii ''spawn failed''))"

text \<open>
  A parser that agrees with \<open>JSON.parse\<close> on the two lines used below, the line
  \<open>null\<close> and one completed agent message, and rejects every other line.
\<close>

definition exampleText :: jsstring where
  "exampleText = ascii ''  '' @ quoted (ascii ''fix: bar'') @ ascii ''  '' @ [LF]"

definition exampleEventLine :: jsstring where
  "exampleEventLine =
     ascii ''{'' @ quoted (ascii ''type'') @ ascii '':'' @ quoted (ascii ''item.completed'') @
     ascii '','' @ quoted (ascii ''item'') @ ascii '':{'' @
     quoted (ascii ''type'') @ ascii '':'' @ quoted (ascii ''agent_message'') @ ascii '','' @
     quoted (ascii ''text'') @ ascii '':'' @
     quoted (ascii ''  '' @ [0x5C, 0x22] @ ascii ''fix: bar'' @ [0x5C, 0x22] @ ascii ''  '' @
             [0x5C, 0x6E]) @
     ascii ''}}''"

definition exampleEvent :: json where
  "exampleEvent =
     JObj [(ascii ''type'', JStr (ascii ''item.completed'')),
           (ascii ''item'', JObj [(ascii ''type'', JStr (ascii ''agent_message'')),
                                  (ascii ''text'', JStr exampleText)])]"

definition exampleParse :: json_parse where
  "exampleParse line =
     (if line = ascii ''null'' then Some JNull
      else if line = exampleEventLine then Some exampleEvent
      else None)"

text \<open>
  The agent message written in two Buffers, with a Buffer of standard error in between;
  and a child that has written \<open>null\<close> when the timer expires and it is killed.
\<close>

definition exampleEventBytes :: buffer where
  "exampleEventBytes = map (\<lambda>c. of_nat (unat c)) exampleEventLine"

definition exampleEvents :: "proc_event list" where
  "exampleEvents =
     [StdoutData (take 20 exampleEventBytes),
      StderrData (asciiBytes ''warn''),
      StdoutData (drop 20 exampleEventBytes @ [0x0D, 0x0A])]"

definition nullEvents :: "proc_event list" where
  "nullEvents = [StdoutData (asciiBytes ''null''), TimerExpired, Close None]"

text \<open>
  The line \<open>null\<close> followed by the agent message, at exit code 0: written as one
  Buffer, and as two Buffers cut after the first line.
\<close>

definition nullThenEventOneChunk :: "proc_event list" where
  "nullThenEventOneChunk =
     [StdoutData (asciiBytes ''null'' @ [0x0A] @ exampleEventBytes @ [0x0A]), Close (Some 0)]"

definition nullThenEventTwoChunks :: "proc_event list" where
  "nullThenEventTwoChunks =
     [StdoutData (asciiBytes ''null'' @ [0x0A]), StdoutData (exampleEventBytes @ [0x0A]),
      Close (Some 0)]"

text \<open>A message wrapped in two quote characters at each end.\<close>

definition doublyQuoted :: jsstring where
  "doublyQuoted = [0x22, 0x22] @ ascii ''foo'' @ [0x22, 0x22]"

text \<open>
  The scenario of the gate: the pending message of the specification, a commit with a
  given message on a given branch, and the default remote and branch.
\<close>

definition japaneseMessage :: jsstring where
  "japaneseMessage =
     [0x5DEE, 0x5206, 0x3092, 0x6574, 0x7406, 0x3057, 0x30D5, 0x30A1, 0x30A4, 0x30EB,
      0x69CB, 0x6210, 0x3092, 0x66F4, 0x65B0]"

definition exampleConfig :: Configuration where
  "exampleConfig =
     \<lparr>cfgModel = ascii ''gpt-5.3-codex'', cfgReasoningEffort = ascii ''high'',
      cfgIncludeUntracked = False, cfgDiffMaxChars = 12000, cfgTimeoutSeconds = 90,
      cfgCodexCommandPath = ascii ''codex'', cfgAutoCommitAfterGenerate = True,
      cfgPushRemote = ascii ''origin'', cfgPushBranch = ascii ''main''\<rparr>"

definition exampleKey :: jsstring where
  "exampleKey = ascii ''/r''"

definition exampleGateEnv :: "jsstring \<Rightarrow> jsstring \<Rightarrow> gate_env" where
  "exampleGateEnv msg branch =
     \<lparr>config = exampleConfig,
      getCommit = (\<lambda>ref. Inr \<lparr>hash = ascii ''abc'', cmessage = msg\<rparr>),
      HEAD = Some \<lparr>name = Some branch, commit = Some (ascii ''abc'')\<rparr>,
      pushOutcome = None\<rparr>"

text \<open>
  Beside it: another remote and branch, a commit message with blanks around its first
  line and with further lines, found through the hash of the head only; a pending
  message with blanks around it; and a commit message whose second line is the pending
  message.
\<close>

definition releaseConfig :: Configuration where
  "releaseConfig =
     exampleConfig\<lparr>cfgPushRemote := ascii ''upstream'', cfgPushBranch := ascii ''release''\<rparr>"

definition paddedCommitMessage :: jsstring where
  "paddedCommitMessage =
     ascii ''  '' @ japaneseMessage @ [0x20, CR, LF, CR, LF] @ ascii ''body of the message''"

definition secondLineMessage :: jsstring where
  "secondLineMessage = ascii ''wip'' @ [LF] @ japaneseMessage"

definition releaseGateEnv :: "jsstring \<Rightarrow> jsstring \<Rightarrow> gate_env" where
  "releaseGateEnv msg branch =
     \<lparr>config = releaseConfig,
      getCommit = (\<lambda>ref. if ref = ascii ''abc''
                         then Inr \<lparr>hash = ascii ''abc'', cmessage = msg\<rparr>
                         else Inl (ascii ''unknown revision'')),
      HEAD = Some \<lparr>name = Some branch, commit = Some (ascii ''abc'')\<rparr>,
      pushOutcome = None\<rparr>"

definition paddedArmed :: ext_state where
  "paddedArmed =
     \<lparr>pendingByRepository =
        [exampleKey \<mapsto> \<lparr>message = [0x3000] @ japaneseMessage @ [0x20, LF], createdAt = 0\<rparr>],
      pushInFlight = {}, effects = []\<rparr>"

definition examplePending :: PendingGeneratedCommit where
  "examplePending = \<lparr>message = japaneseMessage, createdAt = 0\<rparr>"

definition exampleArmed :: ext_state where
  "exampleArmed =
     \<lparr>pendingByRepository = [exampleKey \<mapsto> examplePending], pushInFlight = {}, effects = []\<rparr>"

definition exampleHeld :: ext_state where
  "exampleHeld =
     \<lparr>pendingByRepository = [exampleKey \<mapsto> examplePending], pushInFlight = {exampleKey},
      effects = []\<rparr>"

text \<open>Two notifications: the second one arrives while the first one waits for the commit.\<close>

definition exampleSchedule :: "(bool \<times> gate_env) list" where
  "exampleSchedule =
     [(True, exampleGateEnv japaneseMessage (ascii ''main'')),
      (False, exampleGateEnv japaneseMessage (ascii ''main'')),
      (True, exampleGateEnv japaneseMessage (ascii ''main'')),
      (True, exampleGateEnv japaneseMessage (ascii ''main'')),
      (False, exampleGateEnv japaneseMessage (ascii ''main''))]"

text \<open>The command on a repository with a given \<open>git\<close> and a given generator.\<close>

definition exampleRepository :: GitRepository where
  "exampleRepository = \<lparr>fsPath = ascii ''/r'', repoKey = exampleKey\<rparr>"

definition exampleGenEnv ::
  "git_exec \<Rightarrow> (CodexGenerateOptions \<Rightarrow> (CodexCliError + jsstring) option) \<Rightarrow> gen_env" where
  "exampleGenEnv g gen =
     \<lparr>resolved = Some exampleRepository, gconfig = exampleConfig, git = g, generator = gen,
      commitOutcome = (\<lambda>msg. None), now = 0,
      gate = exampleGateEnv japaneseMessage (ascii ''main'')\<rparr>"

definition emptyGit :: git_exec where
  "emptyGit args = Inr []"

definition smallGit :: git_exec where
  "smallGit args = Inr (ascii ''+x'')"

definition emptyResult :: DiffCollectResult where
  "emptyResult = \<lparr>diffText = [], trackedDiff = [], untrackedFiles = [], wasTruncated = False\<rparr>"

definition smallResult :: DiffCollectResult where
  "smallResult =
     \<lparr>diffText = ascii ''## Tracked Diff'' @ [LF] @ ascii ''+x'', trackedDiff = ascii ''+x'',
      untrackedFiles = [], wasTruncated = False\<rparr>"

definition timeoutError :: CodexCliError where
  "timeoutError =
     \<lparr>code = Timeout, emessage = ascii ''Codex generation timed out after 90000 ms.'',
      details = None\<rparr>"

definition failingGenerator :: "CodexGenerateOptions \<Rightarrow> (CodexCliError + jsstring) option" where
  "failingGenerator opts = Some (Inl timeoutError)"

section \<open>Properties of the diff collector\<close>

lemma length_TRUNCATION_MARKER: "length TRUNCATION_MARKER = 13"
  by (simp add: TRUNCATION_MARKER_def ascii_def)

lemma length_slice_to:
  "0 \<le> e \<Longrightarrow> e \<le> int (length s) \<Longrightarrow> int (length (slice_to s e)) = e"
  by (simp add: slice_to_def Let_def)

text \<open>The cap the command passes to the collector is never below the floor of 1000.\<close>

lemma diffMaxChars_floor: "1000 \<le> diffMaxChars (getSettings cfg)"
  by (simp add: getSettings_def)

lemma slice_to_nonneg: "0 \<le> e \<Longrightarrow> slice_to s e = take (nat e) s"
  by (simp add: slice_to_def Let_def min_def)

lemma collectDiffForPrompt_cases:
  assumes "collectDiffForPrompt g opts = (lg, Inr r)"
  shows "(let c = composeSections (trackedDiff r) (untrackedFiles r) in
          (c = [] \<and> diffText r = [] \<and> \<not> wasTruncated r) \<or>
          (c \<noteq> [] \<and> diffText r = textT (truncateDiffText c (maxChars opts)) \<and>
           wasTruncated r = wasTruncatedT (truncateDiffText c (maxChars opts))))"
  using assms
  by (auto simp: collectDiffForPrompt_def Let_def split: prod.splits sum.splits if_splits)

lemma not_isWhiteSpace_a: "\<not> isWhiteSpace 0x61"
  by (simp add: isWhiteSpace_def)

lemma collect_example:
  "collectDiffForPrompt exampleGit exampleOptions = ([], Inr exampleResult)"
  by (simp add: collectDiffForPrompt_def exampleGit_def exampleOptions_def getTrackedDiff_def
      runGit_def composeSections_def trim_def trimStart_def trimEnd_def not_isWhiteSpace_a
      truncateDiffText_def Let_def slice_to_def ascii_def exampleResult_def)

text \<open>
  C4. For every composed diff text and every character cap (a count, so not negative): if
  the text is longer than the cap, \<open>truncateDiffText\<close> returns a text whose length is the
  cap plus the length of the truncation marker and sets \<open>wasTruncated\<close>; if the text is at
  or under the cap, it is returned unchanged and \<open>wasTruncated\<close> is false.
\<close>

theorem truncateDiffText_cases:
  assumes "0 \<le> mx"
  shows "(mx < int (length dt) \<longrightarrow>
            int (length (textT (truncateDiffText dt mx))) = mx + int (length TRUNCATION_MARKER) \<and>
            wasTruncatedT (truncateDiffText dt mx)) \<and>
         (int (length dt) \<le> mx \<longrightarrow>
            textT (truncateDiffText dt mx) = dt \<and> \<not> wasTruncatedT (truncateDiffText dt mx))"
  using assms by (simp add: truncateDiffText_def length_slice_to)

text \<open>C4 at the cap 3: a text of six characters is cut, a text of two is not.\<close>

theorem truncateDiffText_cases_witness:
  "(0::int) \<le> 3 \<and> 3 < int (length (ascii ''abcdef'')) \<and>
   int (length (textT (truncateDiffText (ascii ''abcdef'') 3))) = 3 + int (length TRUNCATION_MARKER) \<and>
   wasTruncatedT (truncateDiffText (ascii ''abcdef'') 3) \<and>
   int (length (ascii ''ab'')) \<le> 3 \<and>
   textT (truncateDiffText (ascii ''ab'') 3) = ascii ''ab'' \<and>
   \<not> wasTruncatedT (truncateDiffText (ascii ''ab'') 3)"
  using truncateDiffText_cases [of 3 "ascii ''abcdef''"] truncateDiffText_cases [of 3 "ascii ''ab''"]
  by (simp add: ascii_def)

text \<open>
  C5 as stated fails: with the cap 1000 and a tracked diff of 2000 characters the
  collector returns a \<open>diffText\<close> of 1013 characters.
\<close>

theorem diffText_exceeds_cap:
  "collectedLength exampleGit exampleOptions = Some 1013 \<and> maxChars exampleOptions = 1000"
  unfolding collectedLength_def collect_example
  by (simp add: exampleResult_def length_TRUNCATION_MARKER ascii_def exampleOptions_def)

text \<open>
  C5, amended. For every result of the diff collector with a cap that is not negative, the
  length of \<open>diffText\<close> is at most the cap plus the length of the truncation marker. When
  \<open>wasTruncated\<close> is false, \<open>diffText\<close> is the composed text and is within the cap; when
  it is true, the composed text was longer than the cap and \<open>diffText\<close> is its first
  cap characters followed by the marker.
\<close>

theorem collectDiffForPrompt_bound:
  assumes "collectDiffForPrompt g opts = (lg, Inr r)" and "0 \<le> maxChars opts"
  shows "int (length (diffText r)) \<le> maxChars opts + int (length TRUNCATION_MARKER) \<and>
         (\<not> wasTruncated r \<longrightarrow>
            diffText r = composeSections (trackedDiff r) (untrackedFiles r) \<and>
            int (length (diffText r)) \<le> maxChars opts) \<and>
         (wasTruncated r \<longrightarrow>
            maxChars opts < int (length (composeSections (trackedDiff r) (untrackedFiles r))) \<and>
            diffText r =
              take (nat (maxChars opts)) (composeSections (trackedDiff r) (untrackedFiles r)) @
              TRUNCATION_MARKER)"
proof -
  let ?c = "composeSections (trackedDiff r) (untrackedFiles r)"
  from collectDiffForPrompt_cases [OF assms(1)]
  consider (empty) "?c = []" "diffText r = []" "\<not> wasTruncated r"
    | (some) "?c \<noteq> []" "diffText r = textT (truncateDiffText ?c (maxChars opts))"
        "wasTruncated r = wasTruncatedT (truncateDiffText ?c (maxChars opts))"
    by (auto simp: Let_def)
  then show ?thesis
  proof cases
    case empty
    with assms(2) show ?thesis by simp
  next
    case some
    show ?thesis
    proof (cases "int (length ?c) \<le> maxChars opts")
      case True
      with some show ?thesis by (simp add: truncateDiffText_def)
    next
      case False
      with some assms(2) show ?thesis
        by (simp add: truncateDiffText_def slice_to_nonneg)
    qed
  qed
qed

text \<open>C5, amended, at the collection with the cap 1000 and a diff of 2000 characters.\<close>

theorem collectDiffForPrompt_bound_witness:
  "collectDiffForPrompt exampleGit exampleOptions = ([], Inr exampleResult) \<and>
   0 \<le> maxChars exampleOptions \<and>
   wasTruncated exampleResult \<and>
   int (length (diffText exampleResult))
     \<le> maxChars exampleOptions + int (length TRUNCATION_MARKER)"
proof -
  have cap: "0 \<le> maxChars exampleOptions"
    by (simp add: exampleOptions_def)
  have "int (length (diffText exampleResult))
          \<le> maxChars exampleOptions + int (length TRUNCATION_MARKER)"
    using collectDiffForPrompt_bound [OF collect_example cap] by blast
  with collect_example cap show ?thesis
    by (simp add: exampleResult_def)
qed

section \<open>Properties of the candidate loop\<close>

lemma failsNotFound_iff:
  "failsNotFound run c \<longleftrightarrow> (\<exists>e. run c = Some (Inl e) \<and> code e = NotFound)"
  by (auto simp: failsNotFound_def split: option.splits sum.splits)

lemma tryCandidates_step:
  "run c = Some (Inl e) \<Longrightarrow> code e = NotFound \<Longrightarrow>
   tryCandidates run (c # cs) l =
     (c # fst (tryCandidates run cs (Some e)), snd (tryCandidates run cs (Some e)))"
  by (simp add: split_beta)

lemma tryCandidates_stop:
  "\<not> failsNotFound run c \<Longrightarrow> tryCandidates run (c # cs) l = ([c], l, Some (run c))"
  by (auto simp: failsNotFound_def split: option.splits sum.splits)

lemma tryCandidates_char:
  "tryCandidates run cs l = (tried, l', r) \<Longrightarrow>
     tried = take (length tried) cs \<and>
     (\<forall>c \<in> set (butlast tried). failsNotFound run c) \<and>
     (case r of
        None \<Rightarrow> tried = cs \<and> (\<forall>c \<in> set cs. failsNotFound run c) \<and>
                 (if cs = [] then l' = l else \<exists>e. l' = Some e \<and> run (last cs) = Some (Inl e))
      | Some x \<Rightarrow> tried \<noteq> [] \<and> x = run (last tried) \<and> \<not> failsNotFound run (last tried))"
proof (induction cs arbitrary: l tried l' r)
  case Nil
  then show ?case by simp
next
  case (Cons c cs)
  show ?case
  proof (cases "failsNotFound run c")
    case False
    with Cons.prems show ?thesis
      by (auto simp add: tryCandidates_stop simp del: tryCandidates.simps)
  next
    case True
    then obtain e where e: "run c = Some (Inl e)" "code e = NotFound"
      by (auto simp: failsNotFound_iff)
    obtain t2 l2 r2 where rec: "tryCandidates run cs (Some e) = (t2, l2, r2)"
      by (cases "tryCandidates run cs (Some e)") auto
    with Cons.prems e have eq: "tried = c # t2" "l' = l2" "r = r2"
      by (simp_all add: tryCandidates_step del: tryCandidates.simps)
    note IH = Cons.IH [OF rec]
    show ?thesis
    proof (cases r2)
      case None
      with IH have "t2 = cs" "\<forall>c \<in> set cs. failsNotFound run c"
        "if cs = [] then l2 = Some e else \<exists>e. l2 = Some e \<and> run (last cs) = Some (Inl e)"
        by simp_all
      with eq e True None show ?thesis
        by (auto dest: in_set_butlastD)
    next
      case (Some x)
      with IH have t2: "t2 = take (length t2) cs" "\<forall>c \<in> set (butlast t2). failsNotFound run c"
        "t2 \<noteq> []" "x = run (last t2)" "\<not> failsNotFound run (last t2)"
        by simp_all
      from t2(1) have "c # t2 = take (length (c # t2)) (c # cs)" by simp
      with eq True Some t2 show ?thesis
        by auto
    qed
  qed
qed

lemma exampleSpawnFails_ENOENT:
  "exampleSpawnFails (ascii ''ENOENT'') cmd =
     Some (Inl \<lparr>code = NotFound,
                emessage = ascii ''Codex CLI was not found or not executable at '' @
                           quoted cmd @ ascii ''.'',
                details = Some (ascii ''spawn failed'')\<rparr>)"
  by (simp add: exampleSpawnFails_def runCodexWithCommand_def)

lemma exampleSpawnFails_EACCES:
  "exampleSpawnFails (ascii ''EACCES'') cmd =
     Some (Inl \<lparr>code = ProcessFailed,
                emessage = ascii ''Failed to launch Codex CLI: '' @ ascii ''spawn failed'',
                details = None\<rparr>)"
  by (simp add: exampleSpawnFails_def runCodexWithCommand_def ascii_def)

lemma example_all_not_found:
  "generateWithCandidates (exampleSpawnFails (ascii ''ENOENT'')) exampleCandidates exampleGenOptions =
     (exampleCandidates, exampleSpawnFails (ascii ''ENOENT'') (ascii ''codex.exe''))"
  by (simp add: generateWithCandidates_def exampleCandidates_def exampleSpawnFails_ENOENT)

lemma example_denied:
  "generateWithCandidates (exampleSpawnFails (ascii ''EACCES'')) exampleCandidates exampleGenOptions =
     ([ascii ''codex''], exampleSpawnFails (ascii ''EACCES'') (ascii ''codex''))"
  by (simp add: generateWithCandidates_def exampleCandidates_def exampleSpawnFails_EACCES)

text \<open>
  C3 as stated fails: when both candidates fail with \<open>not-found\<close>, the error that
  reaches the caller is the one of the second candidate, which is not the first one.
\<close>

theorem surfaced_not_found_is_not_first:
  "failsNotFound (exampleSpawnFails (ascii ''ENOENT'')) (ascii ''codex'') \<and>
   failsNotFound (exampleSpawnFails (ascii ''ENOENT'')) (ascii ''codex.exe'') \<and>
   snd (generateWithCandidates (exampleSpawnFails (ascii ''ENOENT'')) exampleCandidates
          exampleGenOptions)
     = exampleSpawnFails (ascii ''ENOENT'') (ascii ''codex.exe'') \<and>
   exampleSpawnFails (ascii ''ENOENT'') (ascii ''codex.exe'')
     \<noteq> exampleSpawnFails (ascii ''ENOENT'') (ascii ''codex'')"
  unfolding example_all_not_found
  by (simp add: failsNotFound_def exampleSpawnFails_ENOENT) (simp add: quoted_def ascii_def)

text \<open>
  C3, amended. Given a non-empty list of candidates, the client runs them in order. The
  result is always the outcome of the last candidate it ran; every candidate run before
  that one failed with \<open>not-found\<close>; it stops before the end of the list only at a
  candidate whose outcome is not a \<open>not-found\<close> failure (a failure of another kind
  aborts the attempt, no further candidate is run); and if every candidate fails with
  \<open>not-found\<close>, all are run and the error that reaches the caller is the \<open>not-found\<close>
  error of the last candidate.
\<close>

theorem generateWithCandidates_result:
  assumes "cands \<noteq> []" and "generateWithCandidates run cands opts = (tried, res)"
  shows "tried \<noteq> [] \<and> tried = take (length tried) cands \<and>
         (\<forall>c \<in> set (butlast tried). failsNotFound run c) \<and>
         res = run (last tried) \<and>
         (tried \<noteq> cands \<longrightarrow> \<not> failsNotFound run (last tried)) \<and>
         ((\<forall>c \<in> set cands. failsNotFound run c) \<longrightarrow> tried = cands \<and> res = run (last cands))"
proof -
  obtain t l r where tc: "tryCandidates run cands None = (t, l, r)"
    by (cases "tryCandidates run cands None") auto
  note ch = tryCandidates_char [OF tc]
  show ?thesis
  proof (cases r)
    case None
    with ch assms(1) obtain e where e: "l = Some e" "run (last cands) = Some (Inl e)" "t = cands"
      and nf: "\<forall>c \<in> set cands. failsNotFound run c"
      by auto
    from None tc assms(2) e have "tried = cands" "res = Some (Inl e)"
      by (simp_all add: generateWithCandidates_def)
    with e nf assms(1) show ?thesis
      by (auto dest: in_set_butlastD)
  next
    case (Some x)
    with tc assms(2) have tr: "tried = t" "res = x"
      by (simp_all add: generateWithCandidates_def split: option.splits)
    from Some ch have c2: "t = take (length t) cands" "\<forall>c \<in> set (butlast t). failsNotFound run c"
        "t \<noteq> []" "x = run (last t)" "\<not> failsNotFound run (last t)"
      by simp_all
    have "(\<forall>c \<in> set cands. failsNotFound run c) \<longrightarrow> t = cands"
    proof
      assume all: "\<forall>c \<in> set cands. failsNotFound run c"
      from c2(1) have "set t \<subseteq> set cands" by (metis set_take_subset)
      with c2(3) have "last t \<in> set cands" by (meson last_in_set subsetD)
      with all c2(5) show "t = cands" by blast
    qed
    with tr c2 show ?thesis
      by auto
  qed
qed

text \<open>
  C3, amended, at two runs over the candidates \<open>codex\<close> and \<open>codex.exe\<close>: one where both
  are missing, one where launching the first is refused.
\<close>

theorem generateWithCandidates_result_witness:
  "exampleCandidates \<noteq> [] \<and>
   generateWithCandidates (exampleSpawnFails (ascii ''ENOENT'')) exampleCandidates exampleGenOptions =
     (exampleCandidates, exampleSpawnFails (ascii ''ENOENT'') (ascii ''codex.exe'')) \<and>
   failsNotFound (exampleSpawnFails (ascii ''ENOENT'')) (ascii ''codex'') \<and>
   failsNotFound (exampleSpawnFails (ascii ''ENOENT'')) (ascii ''codex.exe'') \<and>
   exampleSpawnFails (ascii ''ENOENT'') (ascii ''codex.exe'')
     = exampleSpawnFails (ascii ''ENOENT'') (last exampleCandidates) \<and>
   generateWithCandidates (exampleSpawnFails (ascii ''EACCES'')) exampleCandidates exampleGenOptions =
     ([ascii ''codex''], exampleSpawnFails (ascii ''EACCES'') (ascii ''codex'')) \<and>
   [ascii ''codex''] \<noteq> exampleCandidates \<and>
   \<not> failsNotFound (exampleSpawnFails (ascii ''EACCES'')) (last [ascii ''codex''])"
proof -
  have ne: "exampleCandidates \<noteq> []"
    by (simp add: exampleCandidates_def)
  have nf: "failsNotFound (exampleSpawnFails (ascii ''ENOENT'')) (ascii ''codex'')"
      "failsNotFound (exampleSpawnFails (ascii ''ENOENT'')) (ascii ''codex.exe'')"
    by (simp_all add: failsNotFound_def exampleSpawnFails_ENOENT)
  then have "\<forall>c \<in> set exampleCandidates. failsNotFound (exampleSpawnFails (ascii ''ENOENT'')) c"
    by (simp add: exampleCandidates_def)
  with generateWithCandidates_result [OF ne example_all_not_found]
  have last: "exampleSpawnFails (ascii ''ENOENT'') (ascii ''codex.exe'')
                = exampleSpawnFails (ascii ''ENOENT'') (last exampleCandidates)"
    by blast
  have short: "[ascii ''codex''] \<noteq> exampleCandidates"
    by (simp add: exampleCandidates_def)
  with generateWithCandidates_result [OF ne example_denied]
  have "\<not> failsNotFound (exampleSpawnFails (ascii ''EACCES'')) (last [ascii ''codex''])"
    by blast
  with ne nf last short example_all_not_found example_denied show ?thesis
    by blast
qed


section \<open>Properties of the commit-event gate\<close>

lemma pushes_emit: "pushes (emit es st) = pushes st @ filter isPush es"
  by (simp add: pushes_def emit_def)

lemma pending_emit [simp]: "pendingByRepository (emit es st) = pendingByRepository st"
  by (simp add: emit_def)

lemma inflight_emit [simp]: "pushInFlight (emit es st) = pushInFlight st"
  by (simp add: emit_def)

lemma finallyGate_fields [simp]:
  "effects (finallyGate key st) = effects st"
  "pendingByRepository (finallyGate key st) = (pendingByRepository st)(key := None)"
  "pushInFlight (finallyGate key st) = pushInFlight st - {key}"
  by (simp_all add: finallyGate_def pendingClear_def)

lemma pushes_finallyGate [simp]: "pushes (finallyGate key st) = pushes st"
  by (simp add: pushes_def)

lemma catchPush_fields [simp]:
  "pendingByRepository (catchPush msg st) = pendingByRepository st"
  "pushInFlight (catchPush msg st) = pushInFlight st"
  "pushes (catchPush msg st) = pushes st"
  by (simp_all add: catchPush_def pushes_emit isPush_def)

lemma afterPush_fields [simp]:
  "pendingByRepository (afterPush s r st) = pendingByRepository st"
  "pushInFlight (afterPush s r st) = pushInFlight st"
  "pushes (afterPush s r st) = pushes st"
  by (simp_all add: afterPush_def pushes_emit isPush_def split: option.splits)

lemma headUnavailable_fields [simp]:
  "pendingByRepository (headUnavailable b st) = pendingByRepository st"
  "pushInFlight (headUnavailable b st) = pushInFlight st"
  "pushes (headUnavailable b st) = pushes st"
  by (simp_all add: headUnavailable_def pushes_emit isPush_def)

lemma compareAndPush_fields [simp]:
  "pendingByRepository (snd (compareAndPush s p b h c st)) = pendingByRepository st"
  "pushInFlight (snd (compareAndPush s p b h c st)) = pushInFlight st"
  by (simp_all add: compareAndPush_def Let_def)

lemma compareAndPush_flag:
  "fst (compareAndPush s p b h c st) \<longleftrightarrow>
     firstLine (cmessage c) = trim (message p) \<and> currentBranchName h = pushBranch s"
  by (simp add: compareAndPush_def Let_def)

lemma compareAndPush_pushes:
  "pushes (snd (compareAndPush s p b h c st)) =
     pushes st @ (if fst (compareAndPush s p b h c st)
                  then [CallPush (pushRemote s) (pushBranch s) False] else [])"
  by (simp add: compareAndPush_def Let_def pushes_emit isPush_def)

lemma afterCommit_pushes:
  "pushes (case compareAndPush s p b h c st of
             (False, s') \<Rightarrow> s'
           | (True, s') \<Rightarrow> afterPush s r s') =
     pushes st @
     (if firstLine (cmessage c) = trim (message p) \<and> currentBranchName h = pushBranch s
      then [CallPush (pushRemote s) (pushBranch s) False] else [])"
proof -
  obtain f s' where eq: "compareAndPush s p b h c st = (f, s')"
    by (cases "compareAndPush s p b h c st") auto
  from compareAndPush_flag [of s p b h c st] compareAndPush_pushes [of s p b h c st] eq
  show ?thesis by (cases f) auto
qed

lemma pushes_handleCommitEvent:
  "pushes (handleCommitEvent env key showSkip st) =
     pushes st @
     (case pendingGet key st of
        None \<Rightarrow> []
      | Some pending \<Rightarrow>
          if key \<in> pushInFlight st then []
          else if (case latestCommitOf env of
                     None \<Rightarrow> False
                   | Some c \<Rightarrow> firstLine (cmessage c) = trim (message pending)) \<and>
                  currentBranchName (HEAD env) = pushBranch (getSettings (config env))
          then [CallPush (pushRemote (getSettings (config env)))
                         (pushBranch (getSettings (config env))) False]
          else [])"
proof (cases "pendingGet key st")
  case None
  then show ?thesis by (simp add: handleCommitEvent_def)
next
  case (Some pending)
  show ?thesis
  proof (cases "key \<in> pushInFlight st")
    case True
    with Some show ?thesis by (simp add: handleCommitEvent_def)
  next
    case False
    have base: "pushes (st\<lparr>pushInFlight := insert key (pushInFlight st)\<rparr>) = pushes st"
      by (simp add: pushes_def)
    from Some False show ?thesis
      by (simp add: handleCommitEvent_def latestCommitOf_def headCommitOf_def Let_def
          afterCommit_pushes pushes_emit isPush_def base split: sum.splits option.splits)
  qed
qed

lemma splitLines_not_Nil: "splitLines s \<noteq> []"
proof (induction s)
  case Nil
  show ?case by simp
next
  case (Cons c cs)
  then obtain l ls where "splitLines cs = l # ls" by (cases "splitLines cs") auto
  then show ?case by simp
qed

lemma firstLine_hd: "firstLine s = trim (hd (splitLines s))"
  using splitLines_not_Nil [of s] by (cases "splitLines s") (simp_all add: firstLine_def)

lemma getSettings_push:
  "pushRemote (getSettings cfg) = cfgPushRemote cfg"
  "pushBranch (getSettings cfg) = cfgPushBranch cfg"
  by (simp_all add: getSettings_def)

text \<open>
  C1. The calls of push after a commit event are those before it, followed by one call
  of push with the configured remote, the configured branch and no upstream, exactly
  when a pending entry exists for the repository, the guard is not held, the first
  piece of the latest commit's message split at line breaks, trimmed, equals the
  trimmed pending message, and the name of the current branch (empty when the head or
  its name is missing) equals the configured branch; in every other case no call is
  added.
\<close>

theorem handleCommitEvent_pushes:
  "filter isPush (effects (handleCommitEvent env key showSkip st)) =
     filter isPush (effects st) @
     (case pendingByRepository st key of
        None \<Rightarrow> []
      | Some pending \<Rightarrow>
          if key \<in> pushInFlight st then []
          else if (case latestCommitOf env of
                     None \<Rightarrow> False
                   | Some c \<Rightarrow> trim (hd (splitLines (cmessage c))) = trim (message pending)) \<and>
                  (case HEAD env of
                     None \<Rightarrow> []
                   | Some h \<Rightarrow> (case name h of None \<Rightarrow> [] | Some n \<Rightarrow> n))
                    = cfgPushBranch (config env)
          then [CallPush (cfgPushRemote (config env)) (cfgPushBranch (config env)) False]
          else [])"
  using pushes_handleCommitEvent [of env key showSkip st]
  by (simp only: pushes_def pendingGet_def firstLine_hd getSettings_push currentBranchName_def)

lemma pushCount_pushes: "pushCount st = length (pushes st)"
  by (simp add: pushCount_def pushes_def)


lemma continueWithCommit_effect:
  assumes "continueWithCommit env key b s p c st = (pc', st')"
  shows "(awaitsPush pc' \<and> pendingByRepository st' = pendingByRepository st \<and>
          pushInFlight st' = pushInFlight st \<and> pushCount st' = pushCount st + 1) \<or>
         (pc' = GDone \<and> pendingByRepository st' = (pendingByRepository st)(key := None) \<and>
          pushInFlight st' = pushInFlight st - {key} \<and> pushCount st' = pushCount st)"
proof -
  obtain f s' where eq: "compareAndPush s p b (HEAD env) c st = (f, s')"
    by (cases "compareAndPush s p b (HEAD env) c st") auto
  from compareAndPush_fields [of s p b "HEAD env" c st] compareAndPush_pushes [of s p b "HEAD env" c st] eq
  have f: "pendingByRepository s' = pendingByRepository st" "pushInFlight s' = pushInFlight st"
    "pushes s' = pushes st @ (if f then [CallPush (pushRemote s) (pushBranch s) False] else [])"
    by simp_all
  show ?thesis
  proof (cases f)
    case True
    with assms eq have "pc' = GAwaitPush s" "st' = s'"
      by (simp_all add: continueWithCommit_def)
    with f True show ?thesis
      by (simp add: awaitsPush_def pushCount_pushes)
  next
    case False
    with assms eq have "pc' = GDone" "st' = finallyGate key s'"
      by (simp_all add: continueWithCommit_def)
    with f False show ?thesis
      by (simp add: pushCount_pushes)
  qed
qed

lemma prePush_active: "prePush pc \<Longrightarrow> active pc"
  by (cases pc) (simp_all add: prePush_def active_def)

lemma awaitsPush_active: "awaitsPush pc \<Longrightarrow> active pc \<and> \<not> prePush pc"
  by (cases pc) (simp_all add: awaitsPush_def active_def prePush_def)

lemma not_active_GDone: "\<not> active GDone" "\<not> prePush GDone"
  by (simp_all add: active_def prePush_def)

lemma gateStep_effect:
  assumes "gateStep env key b (pc, st) = (pc', st')"
  shows "(\<not> active pc \<and> pc' = GDone \<and> st' = st) \<or>
         (pc = GStart \<and> pendingGet key st \<noteq> None \<and> key \<notin> pushInFlight st \<and> prePush pc' \<and>
          pushInFlight st' = insert key (pushInFlight st) \<and>
          pendingByRepository st' = pendingByRepository st \<and> pushCount st' = pushCount st) \<or>
         (prePush pc \<and> prePush pc' \<and> pushInFlight st' = pushInFlight st \<and>
          pendingByRepository st' = pendingByRepository st \<and> pushCount st' = pushCount st) \<or>
         (prePush pc \<and> awaitsPush pc' \<and> pushInFlight st' = pushInFlight st \<and>
          pendingByRepository st' = pendingByRepository st \<and> pushCount st' = pushCount st + 1) \<or>
         (active pc \<and> pc' = GDone \<and>
          pendingByRepository st' = (pendingByRepository st)(key := None) \<and>
          pushInFlight st' = pushInFlight st - {key} \<and> pushCount st' = pushCount st)"
proof (cases pc)
  case GStart
  show ?thesis
  proof (cases "pendingGet key st = None \<or> key \<in> pushInFlight st")
    case True
    with assms GStart have "pc' = GDone" "st' = st"
      by (auto split: option.splits)
    with GStart show ?thesis by (simp add: active_def)
  next
    case False
    then obtain p where p: "pendingGet key st = Some p" "key \<notin> pushInFlight st" by auto
    with assms GStart have "pc' = GAwaitHead (getSettings (config env)) p"
      "st' = emit [CallGetCommit (ascii ''HEAD'')] (st\<lparr>pushInFlight := insert key (pushInFlight st)\<rparr>)"
      by simp_all
    with GStart p show ?thesis
      by (simp add: prePush_def pushCount_def emit_def isPush_def)
  qed
next
  case (GAwaitHead s p)
  then have pre: "prePush pc" "active pc" by (simp_all add: prePush_def active_def)
  show ?thesis
  proof (cases "getCommit env (ascii ''HEAD'')")
    case (Inr c)
    with assms GAwaitHead have "continueWithCommit env key b s p c st = (pc', st')" by simp
    from continueWithCommit_effect [OF this] pre show ?thesis by blast
  next
    case (Inl e)
    show ?thesis
    proof (cases "headCommitOf (HEAD env)")
      case None
      with assms GAwaitHead Inl have "pc' = GDone" "st' = finallyGate key (headUnavailable b st)"
        by simp_all
      with pre show ?thesis by (simp add: pushCount_pushes)
    next
      case (Some h)
      with assms GAwaitHead Inl have "pc' = GAwaitFallback s p h" "st' = emit [CallGetCommit h] st"
        by simp_all
      with pre show ?thesis by (simp add: prePush_def pushCount_pushes pushes_emit isPush_def)
    qed
  qed
next
  case (GAwaitFallback s p h)
  then have pre: "prePush pc" "active pc" by (simp_all add: prePush_def active_def)
  show ?thesis
  proof (cases "getCommit env h")
    case (Inr c)
    with assms GAwaitFallback have "continueWithCommit env key b s p c st = (pc', st')" by simp
    from continueWithCommit_effect [OF this] pre show ?thesis by blast
  next
    case (Inl e)
    with assms GAwaitFallback have "pc' = GDone" "st' = finallyGate key (catchPush e st)"
      by simp_all
    with pre show ?thesis by (simp add: pushCount_pushes)
  qed
next
  case (GAwaitPush s)
  then have act: "active pc" by (simp add: active_def)
  from assms GAwaitPush have "pc' = GDone"
    "st' = finallyGate key (afterPush s (pushOutcome env) st)"
    by simp_all
  with act show ?thesis by (simp add: pushCount_pushes)
next
  case GDone
  with assms show ?thesis by (simp add: active_def)
qed

lemma gateInv_step1:
  assumes "gateInv key n0 (pc1, pc2, st)" and "gateStep env key b (pc1, st) = (pc1', st')"
  shows "gateInv key n0 (pc1', pc2, st')"
proof -
  from assms(1) have inv:
    "active pc1 \<longrightarrow> key \<in> pushInFlight st" "active pc2 \<longrightarrow> key \<in> pushInFlight st"
    "\<not> (active pc1 \<and> active pc2)" "pushCount st \<le> n0 + 1"
    "pushCount st = n0 + 1 \<longrightarrow>
       (key \<in> pushInFlight st \<or> pendingByRepository st key = None) \<and> \<not> prePush pc1 \<and> \<not> prePush pc2"
    by (simp_all add: gateInv_def pendingGet_def)
  from gateStep_effect [OF assms(2)] show ?thesis
  proof (elim disjE conjE)
    assume "\<not> active pc1" "pc1' = GDone" "st' = st"
    with inv show ?thesis by (simp add: gateInv_def not_active_GDone pendingGet_def)
  next
    assume a: "pc1 = GStart" "pendingGet key st \<noteq> None" "key \<notin> pushInFlight st" "prePush pc1'"
        "pushInFlight st' = insert key (pushInFlight st)"
        "pendingByRepository st' = pendingByRepository st" "pushCount st' = pushCount st"
    from a(3) inv(2) have n2: "\<not> active pc2" by blast
    then have np2: "\<not> prePush pc2" using prePush_active by blast
    from a(2,3) inv(5) have "pushCount st \<noteq> n0 + 1" by (auto simp: pendingGet_def)
    with inv(4) n2 np2 a show ?thesis by (simp add: gateInv_def pendingGet_def)
  next
    assume a: "prePush pc1" "prePush pc1'" "pushInFlight st' = pushInFlight st"
        "pendingByRepository st' = pendingByRepository st" "pushCount st' = pushCount st"
    from a(1) have act: "active pc1" by (rule prePush_active)
    with inv(3) have n2: "\<not> active pc2" by blast
    from a(1) inv(5) have "pushCount st \<noteq> n0 + 1" by blast
    with inv act n2 a show ?thesis by (simp add: gateInv_def pendingGet_def)
  next
    assume a: "prePush pc1" "awaitsPush pc1'" "pushInFlight st' = pushInFlight st"
        "pendingByRepository st' = pendingByRepository st" "pushCount st' = pushCount st + 1"
    from a(1) have act: "active pc1" by (rule prePush_active)
    with inv(3) have n2: "\<not> active pc2" by blast
    then have np2: "\<not> prePush pc2" using prePush_active by blast
    from act inv(1) have held: "key \<in> pushInFlight st" by blast
    from a(1) inv(5) have "pushCount st \<noteq> n0 + 1" by blast
    with inv(4) have le: "pushCount st \<le> n0" by simp
    from awaitsPush_active [OF a(2)] have "\<not> prePush pc1'" by simp
    with le held n2 np2 a show ?thesis by (simp add: gateInv_def pendingGet_def)
  next
    assume a: "active pc1" "pc1' = GDone"
        "pendingByRepository st' = (pendingByRepository st)(key := None)"
        "pushInFlight st' = pushInFlight st - {key}" "pushCount st' = pushCount st"
    with inv(3) have n2: "\<not> active pc2" by blast
    then have np2: "\<not> prePush pc2" using prePush_active by blast
    with inv(4) n2 a show ?thesis by (simp add: gateInv_def pendingGet_def not_active_GDone)
  qed
qed

text \<open>The invariant does not depend on the order of the two tasks.\<close>

lemma gateInv_swap: "gateInv key n0 (pc1, pc2, st) \<Longrightarrow> gateInv key n0 (pc2, pc1, st)"
  by (simp add: gateInv_def) blast

lemma gateInv_step2:
  assumes "gateInv key n0 (pc1, pc2, st)" and "gateStep env key b (pc2, st) = (pc2', st')"
  shows "gateInv key n0 (pc1, pc2', st')"
  by (rule gateInv_swap [OF gateInv_step1 [OF gateInv_swap [OF assms(1)] assms(2)]])

lemma gateInv_runTwo:
  "gateInv key n0 cfg \<Longrightarrow> gateInv key n0 (runTwo key b1 b2 sched cfg)"
proof (induction sched arbitrary: cfg)
  case Nil
  then show ?case by simp
next
  case (Cons a sched)
  obtain first env where a: "a = (first, env)" by (cases a) auto
  obtain pc1 pc2 st where cfg: "cfg = (pc1, pc2, st)" by (cases cfg) auto
  show ?case
  proof (cases first)
    case True
    obtain pc1' st' where st: "gateStep env key b1 (pc1, st) = (pc1', st')"
      by (cases "gateStep env key b1 (pc1, st)") auto
    from Cons.prems cfg have "gateInv key n0 (pc1', pc2, st')"
      using gateInv_step1 st by blast
    from Cons.IH [OF this] a cfg True st show ?thesis by simp
  next
    case False
    obtain pc2' st' where st: "gateStep env key b2 (pc2, st) = (pc2', st')"
      by (cases "gateStep env key b2 (pc2, st)") auto
    from Cons.prems cfg have "gateInv key n0 (pc1, pc2', st')"
      using gateInv_step2 st by blast
    from Cons.IH [OF this] a cfg False st show ?thesis by simp
  qed
qed

lemma trim_japaneseMessage: "trim japaneseMessage = japaneseMessage"
  by (simp add: trim_def trimStart_def trimEnd_def japaneseMessage_def isWhiteSpace_def)

lemma firstLine_japaneseMessage: "firstLine japaneseMessage = japaneseMessage"
  unfolding firstLine_def
  by (simp add: japaneseMessage_def LF_def CR_def trim_def trimStart_def trimEnd_def isWhiteSpace_def)

lemma firstLine_other: "firstLine (japaneseMessage @ [0x21]) = japaneseMessage @ [0x21]"
  unfolding firstLine_def
  by (simp add: japaneseMessage_def LF_def CR_def trim_def trimStart_def trimEnd_def isWhiteSpace_def)

lemma exampleSettings:
  "pushRemote (getSettings exampleConfig) = ascii ''origin''"
  "pushBranch (getSettings exampleConfig) = ascii ''main''"
  by (simp_all add: getSettings_def exampleConfig_def)

lemma pendingGet_exampleArmed: "pendingGet exampleKey exampleArmed = Some examplePending"
  by (simp add: pendingGet_def exampleArmed_def)

lemma pendingGet_exampleHeld: "pendingGet exampleKey exampleHeld = Some examplePending"
  by (simp add: pendingGet_def exampleHeld_def)

lemma latestCommitOf_example:
  "latestCommitOf (exampleGateEnv msg branch) = Some \<lparr>hash = ascii ''abc'', cmessage = msg\<rparr>"
  by (simp add: latestCommitOf_def exampleGateEnv_def)

lemma currentBranchName_example: "currentBranchName (HEAD (exampleGateEnv msg branch)) = branch"
  by (simp add: currentBranchName_def exampleGateEnv_def)

lemma config_example: "config (exampleGateEnv msg branch) = exampleConfig"
  by (simp add: exampleGateEnv_def)

text \<open>
  C1 at the scenarios of the specification and beside them. A push to \<open>origin/main\<close>
  for the same message on \<open>main\<close>; a push to \<open>upstream/release\<close> when the commit
  message has blanks around its first line and further lines, the pending message has
  blanks around it, and the latest commit is found through the hash of the head. No
  push for a message that differs by one character, for a message whose second line is
  the pending message, for the branch \<open>feature/x\<close>, and while the guard is held.
\<close>

theorem handleCommitEvent_pushes_witness:
  "filter isPush (effects (handleCommitEvent (exampleGateEnv japaneseMessage (ascii ''main''))
       exampleKey False exampleArmed))
     = [CallPush (ascii ''origin'') (ascii ''main'') False] \<and>
   filter isPush (effects (handleCommitEvent (releaseGateEnv paddedCommitMessage (ascii ''release''))
       exampleKey False paddedArmed))
     = [CallPush (ascii ''upstream'') (ascii ''release'') False] \<and>
   filter isPush (effects (handleCommitEvent (exampleGateEnv (japaneseMessage @ [0x21]) (ascii ''main''))
       exampleKey False exampleArmed)) = [] \<and>
   filter isPush (effects (handleCommitEvent (exampleGateEnv secondLineMessage (ascii ''main''))
       exampleKey False exampleArmed)) = [] \<and>
   filter isPush (effects (handleCommitEvent (exampleGateEnv japaneseMessage (ascii ''feature/x''))
       exampleKey False exampleArmed)) = [] \<and>
   filter isPush (effects (handleCommitEvent (releaseGateEnv paddedCommitMessage (ascii ''main''))
       exampleKey False paddedArmed)) = [] \<and>
   filter isPush (effects (handleCommitEvent (exampleGateEnv japaneseMessage (ascii ''main''))
       exampleKey False exampleHeld)) = []"
  unfolding handleCommitEvent_pushes by code_simp

lemma handleCommitEvent_noop:
  "pendingGet key st = None \<or> key \<in> pushInFlight st \<Longrightarrow> handleCommitEvent env key b st = st"
  by (auto simp: handleCommitEvent_def split: option.splits)

lemma afterCommit_fields:
  "pendingByRepository (case compareAndPush s p b h c st of
             (False, s') \<Rightarrow> s'
           | (True, s') \<Rightarrow> afterPush s r s') = pendingByRepository st"
  "pushInFlight (case compareAndPush s p b h c st of
             (False, s') \<Rightarrow> s'
           | (True, s') \<Rightarrow> afterPush s r s') = pushInFlight st"
proof -
  obtain f s' where eq: "compareAndPush s p b h c st = (f, s')"
    by (cases "compareAndPush s p b h c st") auto
  from compareAndPush_fields [of s p b h c st] eq
  have f: "pendingByRepository s' = pendingByRepository st" "pushInFlight s' = pushInFlight st"
    by simp_all
  from eq f show "pendingByRepository (case compareAndPush s p b h c st of
             (False, s') \<Rightarrow> s'
           | (True, s') \<Rightarrow> afterPush s r s') = pendingByRepository st"
    by (cases f) simp_all
  from eq f show "pushInFlight (case compareAndPush s p b h c st of
             (False, s') \<Rightarrow> s'
           | (True, s') \<Rightarrow> afterPush s r s') = pushInFlight st"
    by (cases f) simp_all
qed

lemma handleCommitEvent_acquired:
  assumes "pendingGet key st = Some p" and "key \<notin> pushInFlight st"
  shows "pendingByRepository (handleCommitEvent env key b st) = (pendingByRepository st)(key := None)"
    and "pushInFlight (handleCommitEvent env key b st) = pushInFlight st"
  using assms
  by (auto simp: handleCommitEvent_def Let_def afterCommit_fields split: sum.splits option.splits)

text \<open>
  C2 as stated fails: an invocation that finds the guard held returns at once; after
  it has returned, the pending entry is still there and the guard is still held.
\<close>

theorem pending_survives_when_guard_held:
  "pendingGet exampleKey
     (handleCommitEvent (exampleGateEnv japaneseMessage (ascii ''main'')) exampleKey False exampleHeld)
     = Some examplePending \<and>
   exampleKey \<in> pushInFlight
     (handleCommitEvent (exampleGateEnv japaneseMessage (ascii ''main'')) exampleKey False exampleHeld)"
  by (simp add: handleCommitEvent_def pendingGet_exampleHeld) (simp add: exampleHeld_def)

text \<open>
  C2, amended. An evaluation that acquired the guard (a pending entry exists and the
  guard was free) ends with the pending entry of the repository cleared and the guard
  released, on every path; an invocation that finds no pending entry or finds the guard
  held returns without changing the state. The same holds for the function cut at its
  \<open>await\<close>s, whatever the environment answers: the step by which a task that holds
  the guard returns clears the pending entry and releases the guard.
\<close>

theorem gate_exit_clears:
  "(pendingGet key st \<noteq> None \<and> key \<notin> pushInFlight st \<longrightarrow>
      pendingGet key (handleCommitEvent env key b st) = None \<and>
      key \<notin> pushInFlight (handleCommitEvent env key b st)) \<and>
   (pendingGet key st = None \<or> key \<in> pushInFlight st \<longrightarrow>
      handleCommitEvent env key b st = st) \<and>
   (active pc \<and> fst (gateStep env key b (pc, st)) = GDone \<longrightarrow>
      pendingGet key (snd (gateStep env key b (pc, st))) = None \<and>
      key \<notin> pushInFlight (snd (gateStep env key b (pc, st))))"
proof (intro conjI impI)
  assume a: "pendingGet key st \<noteq> None \<and> key \<notin> pushInFlight st"
  then obtain p where p: "pendingGet key st = Some p" by auto
  from handleCommitEvent_acquired [OF p] a
  show "pendingGet key (handleCommitEvent env key b st) = None"
    and "key \<notin> pushInFlight (handleCommitEvent env key b st)"
    by (simp_all add: pendingGet_def)
next
  assume "pendingGet key st = None \<or> key \<in> pushInFlight st"
  then show "handleCommitEvent env key b st = st" by (rule handleCommitEvent_noop)
next
  assume a: "active pc \<and> fst (gateStep env key b (pc, st)) = GDone"
  obtain pc' st' where eq: "gateStep env key b (pc, st) = (pc', st')"
    by (cases "gateStep env key b (pc, st)") auto
  with a have fin: "pc' = GDone" "active pc" by simp_all
  from gateStep_effect [OF eq] fin
  have "pendingByRepository st' = (pendingByRepository st)(key := None) \<and>
        pushInFlight st' = pushInFlight st - {key}"
    using not_active_GDone awaitsPush_active by blast
  with eq show "pendingGet key (snd (gateStep env key b (pc, st))) = None"
    and "key \<notin> pushInFlight (snd (gateStep env key b (pc, st)))"
    by (simp_all add: pendingGet_def)
qed

text \<open>C2, amended, at an armed state, at a state with the guard held, and at a task awaiting push.\<close>

theorem gate_exit_clears_witness:
  "pendingGet exampleKey exampleArmed \<noteq> None \<and> exampleKey \<notin> pushInFlight exampleArmed \<and>
   pendingGet exampleKey
     (handleCommitEvent (exampleGateEnv japaneseMessage (ascii ''feature/x'')) exampleKey True
        exampleArmed) = None \<and>
   exampleKey \<notin> pushInFlight
     (handleCommitEvent (exampleGateEnv japaneseMessage (ascii ''feature/x'')) exampleKey True
        exampleArmed) \<and>
   exampleKey \<in> pushInFlight exampleHeld \<and>
   handleCommitEvent (exampleGateEnv japaneseMessage (ascii ''main'')) exampleKey True exampleHeld
     = exampleHeld \<and>
   active (GAwaitPush (getSettings exampleConfig)) \<and>
   fst (gateStep (exampleGateEnv japaneseMessage (ascii ''main'')) exampleKey True
          (GAwaitPush (getSettings exampleConfig), exampleHeld)) = GDone \<and>
   pendingGet exampleKey
     (snd (gateStep (exampleGateEnv japaneseMessage (ascii ''main'')) exampleKey True
          (GAwaitPush (getSettings exampleConfig), exampleHeld))) = None"
proof -
  have h1: "pendingGet exampleKey exampleArmed \<noteq> None \<and> exampleKey \<notin> pushInFlight exampleArmed"
    by (simp add: pendingGet_exampleArmed) (simp add: exampleArmed_def)
  have h2: "exampleKey \<in> pushInFlight exampleHeld"
    by (simp add: exampleHeld_def)
  have h3: "active (GAwaitPush (getSettings exampleConfig)) \<and>
     fst (gateStep (exampleGateEnv japaneseMessage (ascii ''main'')) exampleKey True
          (GAwaitPush (getSettings exampleConfig), exampleHeld)) = GDone"
    by (simp add: active_def)
  from h1 h2 h3
    gate_exit_clears [of exampleKey exampleArmed
      "exampleGateEnv japaneseMessage (ascii ''feature/x'')" True
      "GAwaitPush (getSettings exampleConfig)"]
    gate_exit_clears [of exampleKey exampleHeld
      "exampleGateEnv japaneseMessage (ascii ''main'')" True
      "GAwaitPush (getSettings exampleConfig)"]
  show ?thesis by blast
qed

lemma runTwo_example:
  "pushCount (snd (snd (runTwo exampleKey False False exampleSchedule (GStart, GStart, exampleArmed))))
     = 1"
  by code_simp

text \<open>
  C8. A commit notification that finds the guard of its repository held changes nothing,
  so it performs no push attempt; and two notifications for one repository, with their
  steps interleaved in any order and any answers of the environment, issue at most one
  call of push between them.
\<close>

theorem guard_limits_pushes:
  "handleCommitEvent env key b (st\<lparr>pushInFlight := insert key (pushInFlight st)\<rparr>)
     = st\<lparr>pushInFlight := insert key (pushInFlight st)\<rparr> \<and>
   pushCount (snd (snd (runTwo key b1 b2 sched (GStart, GStart, st)))) \<le> pushCount st + 1"
proof
  show "handleCommitEvent env key b (st\<lparr>pushInFlight := insert key (pushInFlight st)\<rparr>)
          = st\<lparr>pushInFlight := insert key (pushInFlight st)\<rparr>"
    by (rule handleCommitEvent_noop) simp
next
  have "gateInv key (pushCount st) (GStart, GStart, st)"
    by (simp add: gateInv_def active_def prePush_def)
  from gateInv_runTwo [OF this, of b1 b2 sched]
  show "pushCount (snd (snd (runTwo key b1 b2 sched (GStart, GStart, st)))) \<le> pushCount st + 1"
    by (cases "runTwo key b1 b2 sched (GStart, GStart, st)") (simp add: gateInv_def)
qed

text \<open>
  C8 at a schedule where the second notification arrives while the first one awaits the
  commit: one push is issued.
\<close>

theorem guard_limits_pushes_witness:
  "pushCount (snd (snd (runTwo exampleKey False False exampleSchedule (GStart, GStart, exampleArmed))))
     = 1 \<and> pushCount exampleArmed = 0"
proof -
  have "pushCount exampleArmed = 0"
    by (simp add: pushCount_def exampleArmed_def)
  with runTwo_example
    guard_limits_pushes [of "exampleGateEnv japaneseMessage (ascii ''main'')" exampleKey False
      exampleArmed False False exampleSchedule]
  show ?thesis by simp
qed


section \<open>Properties of the orchestrator\<close>

lemma emit_emit: "emit es2 (emit es1 st) = emit (es1 @ es2) st"
  by (simp add: emit_def)

text \<open>
  C9. When the diff collector returns an empty \<open>diffText\<close>, the command returns after
  the collection and one information message: the prompt builder and the generator are
  not called, and the pending entries are left as they were (none is set).
\<close>

theorem empty_diff_stops:
  assumes "resolved env = Some repository"
    and "collectDiffForPrompt (git env)
           (collectOptionsFor (getSettings (gconfig env)) (fsPath repository)) = (dlog, Inr r)"
    and "diffText r = []"
  shows "handleGenerateCommand env st =
           (True, emit (CallCollectDiff (fsPath repository) # map (\<lambda>l. Output (OutDiff l)) dlog @
                        [ShowInformation NoDiff]) st) \<and>
         pendingByRepository (snd (handleGenerateCommand env st)) = pendingByRepository st \<and>
         filter isGenerationCall (effects (snd (handleGenerateCommand env st)))
           = filter isGenerationCall (effects st)"
proof -
  have tr: "trim [] = []" by (simp add: trim_def trimStart_def trimEnd_def)
  from assms tr have eq: "handleGenerateCommand env st =
           (True, emit (CallCollectDiff (fsPath repository) # map (\<lambda>l. Output (OutDiff l)) dlog @
                        [ShowInformation NoDiff]) st)"
    by (simp add: handleGenerateCommand_def Let_def emit_emit)
  have "filter isGenerationCall (map (\<lambda>l. Output (OutDiff l)) dlog) = []"
    by (induction dlog) (simp_all add: isGenerationCall_def)
  with eq show ?thesis
    by (simp add: emit_def isGenerationCall_def)
qed

lemma catchGenerate_pending:
  "pendingByRepository (catchGenerate settings key err st) = (pendingByRepository st)(key := None)"
  by (simp add: catchGenerate_def Let_def pendingClear_def emit_def split: thrown.splits)

text \<open>
  C10. When the diff collection succeeded with a non-blank diff and then the generator
  fails, or the generator succeeds and, with auto-commit enabled, the staging or the
  commit fails, the command returns and the repository has no pending entry afterwards,
  whatever entry it had before.
\<close>

theorem generate_failure_clears_pending:
  assumes "resolved env = Some repository"
    and "collectDiffForPrompt (git env)
           (collectOptionsFor (getSettings (gconfig env)) (fsPath repository)) = (dlog, Inr r)"
    and "trim (diffText r) \<noteq> []"
    and "(\<exists>e. generator env (codexOptionsFor (getSettings (gconfig env)) (fsPath repository)
                   (diffText r)) = Some (Inl e)) \<or>
         (\<exists>msg. generator env (codexOptionsFor (getSettings (gconfig env)) (fsPath repository)
                   (diffText r)) = Some (Inr msg) \<and>
                autoCommitAfterGenerate (getSettings (gconfig env)) \<and>
                (isl (stageAllChangesWithGitCli (git env) (fsPath repository)) \<or>
                 commitOutcome env msg \<noteq> None))"
  shows "fst (handleGenerateCommand env st) \<and>
         pendingGet (repoKey repository) (snd (handleGenerateCommand env st)) = None"
  using assms
  by (auto simp: handleGenerateCommand_def Let_def pendingGet_def catchGenerate_pending isl_def
      split: sum.splits option.splits)

lemma exampleGenEnv_fields:
  "resolved (exampleGenEnv g gen) = Some exampleRepository"
  "git (exampleGenEnv g gen) = g"
  "generator (exampleGenEnv g gen) = gen"
  "gconfig (exampleGenEnv g gen) = exampleConfig"
  by (simp_all add: exampleGenEnv_def)

lemma collect_emptyGit:
  "collectDiffForPrompt emptyGit (collectOptionsFor (getSettings exampleConfig) (fsPath exampleRepository))
     = ([], Inr emptyResult)"
  by (simp add: collectDiffForPrompt_def emptyGit_def getTrackedDiff_def runGit_def
      collectOptionsFor_def getSettings_def exampleConfig_def composeSections_def
      trim_def trimStart_def trimEnd_def emptyResult_def)

lemma trim_plus_x: "trim (ascii ''+x'') = ascii ''+x''"
  by (simp add: trim_def trimStart_def trimEnd_def ascii_def isWhiteSpace_def)

lemma collect_smallGit:
  "collectDiffForPrompt smallGit (collectOptionsFor (getSettings exampleConfig) (fsPath exampleRepository))
     = ([], Inr smallResult)"
  by (simp add: collectDiffForPrompt_def smallGit_def getTrackedDiff_def runGit_def
      collectOptionsFor_def getSettings_def exampleConfig_def composeSections_def
      trim_plus_x truncateDiffText_def smallResult_def)
    (simp add: ascii_def)

text \<open>C9 at a repository without changes.\<close>

theorem empty_diff_stops_witness:
  "resolved (exampleGenEnv emptyGit failingGenerator) = Some exampleRepository \<and>
   collectDiffForPrompt (git (exampleGenEnv emptyGit failingGenerator))
     (collectOptionsFor (getSettings (gconfig (exampleGenEnv emptyGit failingGenerator)))
        (fsPath exampleRepository)) = ([], Inr emptyResult) \<and>
   diffText emptyResult = [] \<and>
   handleGenerateCommand (exampleGenEnv emptyGit failingGenerator) exampleArmed
     = (True, emit [CallCollectDiff (fsPath exampleRepository), ShowInformation NoDiff] exampleArmed)"
proof -
  have h1: "resolved (exampleGenEnv emptyGit failingGenerator) = Some exampleRepository"
    by (simp add: exampleGenEnv_fields)
  have h2: "collectDiffForPrompt (git (exampleGenEnv emptyGit failingGenerator))
     (collectOptionsFor (getSettings (gconfig (exampleGenEnv emptyGit failingGenerator)))
        (fsPath exampleRepository)) = ([], Inr emptyResult)"
    by (simp add: exampleGenEnv_fields collect_emptyGit)
  have h3: "diffText emptyResult = []"
    by (simp add: emptyResult_def)
  from empty_diff_stops [OF h1 h2 h3, of exampleArmed] h1 h2 h3 show ?thesis
    by simp
qed

text \<open>
  C10 at a repository with a pending entry from an earlier generation, when the
  generator times out.
\<close>

theorem generate_failure_clears_pending_witness:
  "resolved (exampleGenEnv smallGit failingGenerator) = Some exampleRepository \<and>
   collectDiffForPrompt (git (exampleGenEnv smallGit failingGenerator))
     (collectOptionsFor (getSettings (gconfig (exampleGenEnv smallGit failingGenerator)))
        (fsPath exampleRepository)) = ([], Inr smallResult) \<and>
   trim (diffText smallResult) \<noteq> [] \<and>
   generator (exampleGenEnv smallGit failingGenerator)
     (codexOptionsFor (getSettings (gconfig (exampleGenEnv smallGit failingGenerator)))
        (fsPath exampleRepository) (diffText smallResult)) = Some (Inl timeoutError) \<and>
   pendingGet (repoKey exampleRepository) exampleArmed = Some examplePending \<and>
   pendingGet (repoKey exampleRepository)
     (snd (handleGenerateCommand (exampleGenEnv smallGit failingGenerator) exampleArmed)) = None"
proof -
  have h1: "resolved (exampleGenEnv smallGit failingGenerator) = Some exampleRepository"
    by (simp add: exampleGenEnv_fields)
  have h2: "collectDiffForPrompt (git (exampleGenEnv smallGit failingGenerator))
     (collectOptionsFor (getSettings (gconfig (exampleGenEnv smallGit failingGenerator)))
        (fsPath exampleRepository)) = ([], Inr smallResult)"
    by (simp add: exampleGenEnv_fields collect_smallGit)
  have h3: "trim (diffText smallResult) \<noteq> []"
    by (simp add: smallResult_def trim_def trimStart_def trimEnd_def ascii_def isWhiteSpace_def LF_def)
  have h4: "generator (exampleGenEnv smallGit failingGenerator)
     (codexOptionsFor (getSettings (gconfig (exampleGenEnv smallGit failingGenerator)))
        (fsPath exampleRepository) (diffText smallResult)) = Some (Inl timeoutError)"
    by (simp add: exampleGenEnv_fields failingGenerator_def)
  have h5: "pendingGet (repoKey exampleRepository) exampleArmed = Some examplePending"
    by (simp add: exampleRepository_def pendingGet_exampleArmed)
  from h4 have h4': "(\<exists>e. generator (exampleGenEnv smallGit failingGenerator)
        (codexOptionsFor (getSettings (gconfig (exampleGenEnv smallGit failingGenerator)))
           (fsPath exampleRepository) (diffText smallResult)) = Some (Inl e)) \<or>
      (\<exists>msg. generator (exampleGenEnv smallGit failingGenerator)
        (codexOptionsFor (getSettings (gconfig (exampleGenEnv smallGit failingGenerator)))
           (fsPath exampleRepository) (diffText smallResult)) = Some (Inr msg) \<and>
        autoCommitAfterGenerate (getSettings (gconfig (exampleGenEnv smallGit failingGenerator))) \<and>
        (isl (stageAllChangesWithGitCli (git (exampleGenEnv smallGit failingGenerator))
                (fsPath exampleRepository)) \<or>
         commitOutcome (exampleGenEnv smallGit failingGenerator) msg \<noteq> None))"
    by blast
  from generate_failure_clears_pending [OF h1 h2 h3 h4', of exampleArmed] h1 h2 h3 h4 h5
  show ?thesis by simp
qed


section \<open>Properties of the generator client\<close>

lemma splitLines_nonempty [simp]: "splitLines s \<noteq> []"
proof (induction s)
  case Nil
  show ?case by simp
next
  case (Cons c cs)
  then obtain l ls where "splitLines cs = l # ls" by (cases "splitLines cs") auto
  then show ?case by simp
qed

lemma splitLines_LF: "splitLines (LF # cs) = [] # splitLines cs"
  by simp

lemma splitLines_CRLF: "splitLines (CR # LF # cs) = [] # splitLines cs"
  by (simp add: LF_def CR_def)

lemma splitLines_plain:
  "c \<noteq> LF \<Longrightarrow> \<not> (c = CR \<and> (\<exists>ds. cs = LF # ds)) \<Longrightarrow>
   splitLines (c # cs) = (c # hd (splitLines cs)) # tl (splitLines cs)"
proof -
  assume a: "c \<noteq> LF" "\<not> (c = CR \<and> (\<exists>ds. cs = LF # ds))"
  obtain l ls where sp: "splitLines cs = l # ls" by (cases "splitLines cs") auto
  from a have "\<not> (c = CR \<and> (case cs of [] \<Rightarrow> False | d # _ \<Rightarrow> d = LF))"
    by (cases cs) auto
  with a(1) sp show ?thesis by simp
qed

declare splitLines.simps(2) [simp del]

lemma splitLines_cases:
  obtains (empty) "s = []"
    | (lf) cs where "s = LF # cs"
    | (crlf) cs where "s = CR # LF # cs"
    | (plain) c cs where "s = c # cs" "c \<noteq> LF" "\<not> (c = CR \<and> (\<exists>ds. cs = LF # ds))"
proof (cases s)
  case Nil
  then show ?thesis by (rule empty)
next
  case (Cons c cs)
  show ?thesis
  proof (cases "c = LF")
    case True
    with Cons show ?thesis using lf by blast
  next
    case False
    show ?thesis
    proof (cases "c = CR \<and> (\<exists>ds. cs = LF # ds)")
      case True
      with Cons show ?thesis using crlf by blast
    next
      case nsep: False
      from Cons False nsep show ?thesis by (rule plain)
    qed
  qed
qed

lemma splitLines_single:
  "splitLines s = [l] \<Longrightarrow> l = s \<and> LF \<notin> set s"
proof (induction s arbitrary: l)
  case Nil
  then show ?case by simp
next
  case (Cons c cs)
  show ?case
  proof (cases "c # cs" rule: splitLines_cases)
    case empty
    then show ?thesis by simp
  next
    case (lf cs')
    with Cons.prems show ?thesis by (simp add: splitLines_LF)
  next
    case (crlf cs')
    with Cons.prems show ?thesis by (simp add: splitLines_CRLF)
  next
    case (plain c' cs')
    then have eq: "c' = c" "cs' = cs" by simp_all
    from splitLines_plain [OF plain(2,3)] Cons.prems eq
    have h: "c # hd (splitLines cs) = l" "tl (splitLines cs) = []" by simp_all
    then have "splitLines cs = [hd (splitLines cs)]"
      by (cases "splitLines cs") simp_all
    from Cons.IH [OF this] h(1) plain(2) eq show ?thesis by auto
  qed
qed

lemma splitLines_whole:
  "splitLines a = [l] \<Longrightarrow>
   splitLines (a @ b) = butlast (splitLines a) @ splitLines (last (splitLines a) @ b)"
  using splitLines_single [of a l] by simp

lemma splitLines_append:
  "splitLines (a @ b) = butlast (splitLines a) @ splitLines (last (splitLines a) @ b)"
proof (induction a rule: length_induct)
  case (1 a)
  show ?case
  proof (cases a rule: splitLines_cases)
    case empty
    then show ?thesis by simp
  next
    case (lf cs)
    with 1 have IH: "splitLines (cs @ b) = butlast (splitLines cs) @ splitLines (last (splitLines cs) @ b)"
      by simp
    from lf IH show ?thesis by (simp add: splitLines_LF)
  next
    case (crlf cs)
    with 1 have IH: "splitLines (cs @ b) = butlast (splitLines cs) @ splitLines (last (splitLines cs) @ b)"
      by simp
    from crlf IH show ?thesis by (simp add: splitLines_CRLF)
  next
    case (plain c cs)
    with 1 have IH: "splitLines (cs @ b) = butlast (splitLines cs) @ splitLines (last (splitLines cs) @ b)"
      by simp
    obtain l ls where sp: "splitLines cs = l # ls" by (cases "splitLines cs") auto
    have spa: "splitLines a = (c # l) # ls"
      using splitLines_plain [OF plain(2,3)] plain(1) sp by simp
    show ?thesis
    proof (cases ls)
      case Nil
      with spa show ?thesis by (simp add: splitLines_whole)
    next
      case (Cons m ms)
      have "cs \<noteq> []"
      proof
        assume "cs = []"
        with sp Cons show False by simp
      qed
      then have nsep: "\<not> (c = CR \<and> (\<exists>ds. cs @ b = LF # ds))"
        using plain(3) by (cases cs) auto
      have "splitLines (a @ b) = (c # hd (splitLines (cs @ b))) # tl (splitLines (cs @ b))"
        using splitLines_plain [OF plain(2) nsep] plain(1) by simp
      with IH sp Cons spa show ?thesis by simp
    qed
  qed
qed

lemma splitLines_no_LF: "LF \<notin> set s \<Longrightarrow> splitLines s = [s]"
proof (induction s)
  case Nil
  show ?case by simp
next
  case (Cons c cs)
  then have c: "c \<noteq> LF" and cs: "LF \<notin> set cs" by auto
  from cs have "\<not> (c = CR \<and> (\<exists>ds. cs = LF # ds))" by auto
  from splitLines_plain [OF c this] Cons.IH [OF cs] show ?case by simp
qed

lemma last_splitLines_no_LF: "LF \<notin> set (last (splitLines s))"
proof (induction s rule: length_induct)
  case (1 s)
  show ?case
  proof (cases s rule: splitLines_cases)
    case empty
    then show ?thesis by simp
  next
    case (lf cs)
    with 1 show ?thesis by (simp add: splitLines_LF)
  next
    case (crlf cs)
    with 1 show ?thesis by (simp add: splitLines_CRLF)
  next
    case (plain c cs)
    with 1 have IH: "LF \<notin> set (last (splitLines cs))" by simp
    obtain l ls where sp: "splitLines cs = l # ls" by (cases "splitLines cs") auto
    from splitLines_plain [OF plain(2,3)] plain(1) sp
    have "splitLines s = (c # l) # ls" by simp
    with IH sp plain(2) show ?thesis by (cases ls) auto
  qed
qed

text \<open>The line handed to the loop by the flush at close: a final carriage return is dropped.\<close>

lemma splitLines_flush:
  "LF \<notin> set buf \<Longrightarrow>
   splitLines (buf @ [LF]) = [if buf \<noteq> [] \<and> last buf = CR then butlast buf else buf, []]"
proof (induction buf)
  case Nil
  show ?case by (simp add: splitLines_LF)
next
  case (Cons c cs)
  then have c: "c \<noteq> LF" and cs: "LF \<notin> set cs" by auto
  show ?case
  proof (cases cs)
    case Nil
    show ?thesis
    proof (cases "c = CR")
      case True
      with Nil show ?thesis by (simp add: splitLines_CRLF splitLines_LF)
    next
      case False
      then have "\<not> (c = CR \<and> (\<exists>ds. [LF] = LF # ds))" by simp
      from splitLines_plain [OF c this] Nil False show ?thesis
        by (simp add: splitLines_LF)
    qed
  next
    case (Cons d ds)
    with cs have "\<not> (c = CR \<and> (\<exists>es. cs @ [LF] = LF # es))" by auto
    from splitLines_plain [OF c this] Cons.IH [OF cs] Cons show ?thesis
      by simp
  qed
qed

lemma isWhiteSpace_CR: "isWhiteSpace CR"
  by (simp add: isWhiteSpace_def CR_def)

lemma trim_snoc_ws: "isWhiteSpace c \<Longrightarrow> trim (s @ [c]) = trim s"
proof -
  assume c: "isWhiteSpace c"
  show ?thesis
  proof (cases "\<forall>x \<in> set s. isWhiteSpace x")
    case True
    with c have "\<forall>x \<in> set (s @ [c]). isWhiteSpace x" by simp
    with True have e: "dropWhile isWhiteSpace (s @ [c]) = []" "dropWhile isWhiteSpace s = []"
      by (simp_all only: dropWhile_eq_Nil_conv)
    show ?thesis
      unfolding trim_def trimStart_def trimEnd_def e by (rule refl)
  next
    case False
    then obtain x where "x \<in> set s" "\<not> isWhiteSpace x" by blast
    then have e: "dropWhile isWhiteSpace (s @ [c]) = dropWhile isWhiteSpace s @ [c]"
      by (rule dropWhile_append1)
    show ?thesis
      unfolding trim_def trimStart_def trimEnd_def e using c by simp
  qed
qed

lemma trim_flush_line:
  "trim (if buf \<noteq> [] \<and> last buf = CR then butlast buf else buf) = trim buf"
proof (cases "buf \<noteq> [] \<and> last buf = CR")
  case True
  then have "buf = butlast buf @ [CR]" by (metis append_butlast_last_id)
  then have "trim buf = trim (butlast buf)"
    using trim_snoc_ws [OF isWhiteSpace_CR, of "butlast buf"] by simp
  with True show ?thesis by simp
next
  case False
  then show ?thesis by auto
qed

lemma scanLines_append:
  "scanLines parse (xs @ ys) l =
     (if fst (scanLines parse xs l) then scanLines parse xs l
      else scanLines parse ys (snd (scanLines parse xs l)))"
  by (induction xs arbitrary: l) (auto simp: Let_def split: option.splits sum.splits)

lemma scanLines_throw_iff:
  "fst (scanLines parse xs l) \<longleftrightarrow> (\<exists>x \<in> set xs. throwsOn parse x)"
proof (induction xs arbitrary: l)
  case Nil
  show ?case by simp
next
  case (Cons x xs)
  have tx: "throwsOn parse x \<longleftrightarrow> trim x \<noteq> [] \<and> parse (trim x) = Some JNull"
    by (auto simp: throwsOn_def)
  have am: "\<And>ev. agentMessageText ev = Inl () \<longleftrightarrow> ev = JNull"
    by (auto simp: agentMessageText_def split: json.splits option.splits if_splits)
  show ?case
  proof (cases "throwsOn parse x")
    case True
    with tx show ?thesis by (simp add: agentMessageText_def)
  next
    case False
    with tx am Cons.IH show ?thesis
      by (auto simp: Let_def split: option.splits sum.splits)
  qed
qed

lemma scanLines_trim_cong:
  "map trim xs = map trim ys \<Longrightarrow> scanLines parse xs l = scanLines parse ys l"
proof (induction xs arbitrary: ys l)
  case Nil
  then show ?case by simp
next
  case (Cons x xs)
  then obtain y ys' where ys: "ys = y # ys'" "trim x = trim y" "map trim xs = map trim ys'"
    by (cases ys) auto
  with Cons.IH [OF ys(3)] show ?case
    by (simp add: Let_def split: option.splits sum.splits)
qed

lemma set_butlast_splitLines_append:
  "set (butlast (splitLines a)) \<subseteq> set (splitLines (a @ b))"
  by (subst splitLines_append) simp

lemma last_splitLines_append:
  "last (splitLines (a @ b)) = last (splitLines (last (splitLines a) @ b))"
  by (subst splitLines_append) simp

lemma butlast_splitLines_append:
  "butlast (splitLines (a @ b)) =
     butlast (splitLines a) @ butlast (splitLines (last (splitLines a) @ b))"
  by (subst splitLines_append) (simp add: butlast_append)

lemma processStdoutLines_fields:
  "stdoutBuffer (fst (processStdoutLines parse chunk st)) = last (splitLines (stdoutBuffer st @ chunk))"
  "lastAgentMessage (fst (processStdoutLines parse chunk st)) =
     snd (scanLines parse (butlast (splitLines (stdoutBuffer st @ chunk))) (lastAgentMessage st))"
  "snd (processStdoutLines parse chunk st) =
     fst (scanLines parse (butlast (splitLines (stdoutBuffer st @ chunk))) (lastAgentMessage st))"
  "stdoutRaw (fst (processStdoutLines parse chunk st)) = stdoutRaw st @ chunk"
  "stderrRaw (fst (processStdoutLines parse chunk st)) = stderrRaw st"
  "timedOut (fst (processStdoutLines parse chunk st)) = timedOut st"
  "settled (fst (processStdoutLines parse chunk st)) = settled st"
  "timerArmed (fst (processStdoutLines parse chunk st)) = timerArmed st"
  "outcome (fst (processStdoutLines parse chunk st)) = outcome st"
  by (simp_all add: processStdoutLines_def Let_def split_beta)

lemma isData_cases: "isData e \<Longrightarrow> (\<exists>chunk. e = StdoutData chunk) \<or> (\<exists>chunk. e = StderrData chunk)"
  by (cases e) simp_all

lemma handleEvent_data_flags:
  assumes "isData e"
  shows "timedOut (handleEvent parse lc dec nf cmd opts e st) = timedOut st"
    and "settled (handleEvent parse lc dec nf cmd opts e st) = settled st"
    and "timerArmed (handleEvent parse lc dec nf cmd opts e st) = timerArmed st"
    and "outcome (handleEvent parse lc dec nf cmd opts e st) = outcome st"
  using isData_cases [OF assms]
  by (auto simp: onStdoutData_def onStderrData_def processStdoutLines_fields)

lemma runEvents_Cons:
  "runEvents parse lc dec nf cmd opts (e # es) st =
     runEvents parse lc dec nf cmd opts es (handleEvent parse lc dec nf cmd opts e st)"
  by (simp add: runEvents_def)

lemma runEvents_append:
  "runEvents parse lc dec nf cmd opts (es @ fs) st =
     runEvents parse lc dec nf cmd opts fs (runEvents parse lc dec nf cmd opts es st)"
  by (simp add: runEvents_def)

lemma runEvents_data_flags:
  assumes "\<forall>e \<in> set ds. isData e"
  shows "timedOut (runEvents parse lc dec nf cmd opts ds st) = timedOut st \<and>
         settled (runEvents parse lc dec nf cmd opts ds st) = settled st \<and>
         timerArmed (runEvents parse lc dec nf cmd opts ds st) = timerArmed st \<and>
         outcome (runEvents parse lc dec nf cmd opts ds st) = outcome st"
  using assms
proof (induction ds arbitrary: st)
  case Nil
  show ?case by (simp add: runEvents_def)
next
  case (Cons e ds)
  then have e: "isData e" and ds: "\<forall>e \<in> set ds. isData e" by simp_all
  from Cons.IH [OF ds, of "handleEvent parse lc dec nf cmd opts e st"] handleEvent_data_flags [OF e]
  show ?case by (simp add: runEvents_Cons)
qed

text \<open>
  However the decoded output is cut, the buffer holds the unfinished last line of what
  was received so far.
\<close>

lemma runEvents_data_buffer:
  assumes "\<forall>e \<in> set ds. isData e" and "stdoutBuffer st = last (splitLines t0)"
  shows "stdoutBuffer (runEvents parse lc dec nf cmd opts ds st) = last (splitLines (t0 @ stdoutOf dec ds))"
  using assms
proof (induction ds arbitrary: st t0)
  case Nil
  then show ?case by (simp add: runEvents_def)
next
  case (Cons e ds)
  then have e: "isData e" and ds: "\<forall>e \<in> set ds. isData e" by simp_all
  from isData_cases [OF e] show ?case
  proof (elim disjE exE)
    fix chunk assume ev: "e = StdoutData chunk"
    have "stdoutBuffer (handleEvent parse lc dec nf cmd opts e st) = last (splitLines (t0 @ dec chunk))"
      using Cons.prems(2) ev last_splitLines_append [of t0 "dec chunk"]
      by (simp add: onStdoutData_def processStdoutLines_fields)
    from Cons.IH [OF ds this] ev show ?thesis by (simp add: runEvents_Cons)
  next
    fix chunk assume ev: "e = StderrData chunk"
    have "stdoutBuffer (handleEvent parse lc dec nf cmd opts e st) = last (splitLines t0)"
      using Cons.prems(2) ev by (simp add: onStderrData_def)
    from Cons.IH [OF ds this] ev show ?thesis by (simp add: runEvents_Cons)
  qed
qed

text \<open>
  And, when no line makes the loop throw, \<open>lastAgentMessage\<close> is the result of the loop
  over the finished lines of what was written so far.
\<close>

lemma runEvents_data_last:
  assumes "\<forall>e \<in> set ds. isData e" and "stdoutBuffer st = last (splitLines t0)"
    and "lastAgentMessage st = snd (scanLines parse (butlast (splitLines t0)) None)"
    and "\<forall>line \<in> set (splitLines (t0 @ stdoutOf dec ds)). \<not> throwsOn parse line"
  shows "lastAgentMessage (runEvents parse lc dec nf cmd opts ds st) =
           snd (scanLines parse (butlast (splitLines (t0 @ stdoutOf dec ds))) None)"
  using assms
proof (induction ds arbitrary: st t0)
  case Nil
  then show ?case by (simp add: runEvents_def)
next
  case (Cons e ds)
  then have e: "isData e" and ds: "\<forall>e \<in> set ds. isData e" by simp_all
  from isData_cases [OF e] show ?case
  proof (elim disjE exE)
    fix chunk assume ev: "e = StdoutData chunk"
    let ?st1 = "handleEvent parse lc dec nf cmd opts e st"
    have buf: "stdoutBuffer ?st1 = last (splitLines (t0 @ dec chunk))"
      using Cons.prems(2) ev last_splitLines_append [of t0 "dec chunk"]
      by (simp add: onStdoutData_def processStdoutLines_fields)
    have sub: "set (butlast (splitLines t0)) \<subseteq> set (splitLines (t0 @ stdoutOf dec (e # ds)))"
      by (rule set_butlast_splitLines_append)
    with Cons.prems(4) have "\<not> (\<exists>x \<in> set (butlast (splitLines t0)). throwsOn parse x)"
      by blast
    then have nothrow: "\<not> fst (scanLines parse (butlast (splitLines t0)) None)"
      by (simp add: scanLines_throw_iff)
    have "lastAgentMessage ?st1 =
            snd (scanLines parse (butlast (splitLines (last (splitLines t0) @ dec chunk)))
                   (snd (scanLines parse (butlast (splitLines t0)) None)))"
      using Cons.prems(2,3) ev by (simp add: onStdoutData_def processStdoutLines_fields)
    also have "\<dots> = snd (scanLines parse (butlast (splitLines (t0 @ dec chunk))) None)"
      using nothrow by (simp add: butlast_splitLines_append [of t0 "dec chunk"] scanLines_append)
    finally have lam: "lastAgentMessage ?st1 =
      snd (scanLines parse (butlast (splitLines (t0 @ dec chunk))) None)" .
    from Cons.prems(4) ev
    have nt: "\<forall>line \<in> set (splitLines ((t0 @ dec chunk) @ stdoutOf dec ds)). \<not> throwsOn parse line"
      by simp
    from Cons.IH [OF ds buf lam nt] ev show ?thesis by (simp add: runEvents_Cons)
  next
    fix chunk assume ev: "e = StderrData chunk"
    let ?st1 = "handleEvent parse lc dec nf cmd opts e st"
    have buf: "stdoutBuffer ?st1 = last (splitLines t0)"
      and lam: "lastAgentMessage ?st1 = snd (scanLines parse (butlast (splitLines t0)) None)"
      using Cons.prems(2,3) ev by (simp_all add: onStderrData_def)
    from Cons.prems(4) ev
    have nt: "\<forall>line \<in> set (splitLines (t0 @ stdoutOf dec ds)). \<not> throwsOn parse line"
      by simp
    from Cons.IH [OF ds buf lam nt] ev show ?thesis by (simp add: runEvents_Cons)
  qed
qed

lemma reject_outcome: "outcome st = None \<Longrightarrow> outcome (reject e st) = Some (Inl e)"
  by (simp add: reject_def)

lemma resolve_outcome: "outcome st = None \<Longrightarrow> outcome (resolve m st) = Some (Inr m)"
  by (simp add: resolve_def)

lemma appendLog_fields [simp]:
  "outcome (appendLog l st) = outcome st"
  "timedOut (appendLog l st) = timedOut st"
  "lastAgentMessage (appendLog l st) = lastAgentMessage st"
  "stderrRaw (appendLog l st) = stderrRaw st"
  "stdoutRaw (appendLog l st) = stdoutRaw st"
  by (simp_all add: appendLog_def)

lemma flushed_fields:
  assumes "LF \<notin> set (stdoutBuffer st)"
  shows "snd (flushed parse st) = throwsOn parse (stdoutBuffer st)"
    and "lastAgentMessage (fst (flushed parse st)) =
           snd (scanLines parse [stdoutBuffer st] (lastAgentMessage st))"
    and "outcome (fst (flushed parse st)) = outcome st"
    and "timedOut (fst (flushed parse st)) = timedOut st"
proof -
  let ?buf = "stdoutBuffer st"
  let ?line = "if ?buf \<noteq> [] \<and> last ?buf = CR then butlast ?buf else ?buf"
  have sp: "butlast (splitLines (?buf @ [LF])) = [?line]"
    using splitLines_flush [OF assms] by simp
  have cong: "scanLines parse [?line] l = scanLines parse [?buf] l" for l
    by (rule scanLines_trim_cong) (simp add: trim_flush_line)
  have thr: "fst (scanLines parse [?buf] l) = throwsOn parse ?buf" for l
    by (simp add: scanLines_throw_iff del: scanLines.simps)
  have blank: "scanLines parse [?buf] l = (False, l)" if "trim ?buf = []" for l
    using that by simp
  have nothrow_blank: "\<not> throwsOn parse ?buf" if "trim ?buf = []"
    using that by (simp add: throwsOn_def)
  show "snd (flushed parse st) = throwsOn parse ?buf"
  proof (cases "trim ?buf = []")
    case True
    with nothrow_blank show ?thesis by (simp add: flushed_def)
  next
    case False
    then have fl: "flushed parse st = processStdoutLines parse [LF] st"
      by (simp add: flushed_def)
    show ?thesis by (simp only: fl processStdoutLines_fields sp cong thr)
  qed
  show "lastAgentMessage (fst (flushed parse st)) = snd (scanLines parse [?buf] (lastAgentMessage st))"
  proof (cases "trim ?buf = []")
    case True
    with blank show ?thesis by (simp add: flushed_def del: scanLines.simps)
  next
    case False
    then have fl: "flushed parse st = processStdoutLines parse [LF] st"
      by (simp add: flushed_def)
    show ?thesis by (simp only: fl processStdoutLines_fields sp cong)
  qed
  show "outcome (fst (flushed parse st)) = outcome st"
    by (simp add: flushed_def processStdoutLines_fields)
  show "timedOut (fst (flushed parse st)) = timedOut st"
    by (simp add: flushed_def processStdoutLines_fields)
qed

lemma closeCallback_flushed:
  "closeCallback parse lc opts exitCode st =
     (let st1 = fst (flushed parse st)
      in if snd (flushed parse st) then st1
         else
          (let st2 = (if length (trim (stderrRaw st1)) > 0
                      then appendLog (LogStderrTail (tail (trim (stderrRaw st1)) 3000)) st1
                      else st1);
               st3 = (if length (trim (stdoutRaw st2)) > 0
                      then appendLog (LogStdoutTail (tail (trim (stdoutRaw st2)) 3000)) st2
                      else st2)
           in if timedOut st3
              then reject \<lparr>code = Timeout,
                           emessage = ascii ''Codex generation timed out after '' @
                                      showInt (timeoutMs opts) @ ascii '' ms.'',
                           details = None\<rparr> st3
              else if exitCode \<noteq> Some 0
              then (let combined = stderrRaw st3 @ [LF] @ stdoutRaw st3
                    in if isModelAccessError lc combined
                       then reject \<lparr>code = ModelAccess,
                                    emessage = ascii ''Model access error for '' @
                                               quoted (gmodel opts) @ ascii ''.'',
                                    details = Some (tail combined 4000)\<rparr> st3
                       else reject \<lparr>code = ProcessFailed,
                                    emessage = ascii ''Codex CLI exited with code '' @
                                               showExitCode exitCode @ ascii ''.'',
                                    details = Some (tail combined 4000)\<rparr> st3)
              else (case lastAgentMessage st3 of
                      None \<Rightarrow>
                        reject \<lparr>code = ParseFailed,
                                emessage = ascii ''No agent message was found in Codex JSON output.'',
                                details = None\<rparr> st3
                    | Some m \<Rightarrow>
                        if m = []
                        then reject \<lparr>code = ParseFailed,
                                     emessage = ascii ''No agent message was found in Codex JSON output.'',
                                     details = None\<rparr> st3
                        else (let normalized = normalizeGeneratedMessage m
                              in if normalized = []
                                 then reject \<lparr>code = EmptyResponse,
                                              emessage = ascii ''Generated message is empty after normalization.'',
                                              details = None\<rparr> st3
                                 else resolve normalized st3))))"
  by (simp add: closeCallback_def flushed_def split_beta Let_def)

lemma closeCallback_throws:
  assumes "LF \<notin> set (stdoutBuffer st)" and "throwsOn parse (stdoutBuffer st)"
  shows "outcome (closeCallback parse lc opts exitCode st) = outcome st"
  using flushed_fields [OF assms(1), of parse] assms(2)
  by (simp add: closeCallback_flushed Let_def)

lemma closeCallback_timeout:
  assumes "LF \<notin> set (stdoutBuffer st)" and "\<not> throwsOn parse (stdoutBuffer st)"
    and "timedOut st" and "outcome st = None"
  shows "outcome (closeCallback parse lc opts exitCode st) =
           Some (Inl \<lparr>code = Timeout,
                      emessage = ascii ''Codex generation timed out after '' @
                                 showInt (timeoutMs opts) @ ascii '' ms.'',
                      details = None\<rparr>)"
  using flushed_fields [OF assms(1), of parse] assms(2-4)
  by (simp add: closeCallback_flushed Let_def reject_outcome)

lemma closeCallback_success:
  assumes "LF \<notin> set (stdoutBuffer st)" and "\<not> throwsOn parse (stdoutBuffer st)"
    and "\<not> timedOut st" and "outcome st = None"
    and "snd (scanLines parse [stdoutBuffer st] (lastAgentMessage st)) = Some t"
    and "t \<noteq> []" and "normalizeGeneratedMessage t \<noteq> []"
  shows "outcome (closeCallback parse lc opts (Some 0) st) = Some (Inr (normalizeGeneratedMessage t))"
  using flushed_fields [OF assms(1), of parse] assms(2-7)
  by (simp add: closeCallback_flushed Let_def resolve_outcome)

lemma onClose_unsettled:
  "\<not> settled st \<Longrightarrow>
   onClose parse lc opts exitCode st =
     closeCallback parse lc opts exitCode (st\<lparr>settled := True, timerArmed := False\<rparr>)"
  by (simp add: onClose_def settle_def)

lemma initialProcState_fields:
  "stdoutBuffer initialProcState = []" "lastAgentMessage initialProcState = None"
  "\<not> timedOut initialProcState" "\<not> settled initialProcState" "timerArmed initialProcState"
  "outcome initialProcState = None"
  by (simp_all add: initialProcState_def)

lemma onTimeout_fields:
  "timerArmed st \<Longrightarrow> timedOut (onTimeout opts st)"
  "settled (onTimeout opts st) = settled st"
  "outcome (onTimeout opts st) = outcome st"
  "stdoutBuffer (onTimeout opts st) = stdoutBuffer st"
  by (simp_all add: onTimeout_def appendLog_def)

lemma lastAgentMessageOf_split:
  assumes "\<forall>line \<in> set (splitLines out). \<not> throwsOn parse line"
  shows "snd (scanLines parse [last (splitLines out)]
                (snd (scanLines parse (butlast (splitLines out)) None)))
           = lastAgentMessageOf parse out"
proof -
  have "\<not> (\<exists>x \<in> set (butlast (splitLines out)). throwsOn parse x)"
    using assms by (meson in_set_butlastD)
  then have nt: "\<not> fst (scanLines parse (butlast (splitLines out)) None)"
    by (simp add: scanLines_throw_iff)
  have "splitLines out = butlast (splitLines out) @ [last (splitLines out)]"
    by simp
  then have "lastAgentMessageOf parse out =
               snd (scanLines parse (butlast (splitLines out) @ [last (splitLines out)]) None)"
    by (simp add: lastAgentMessageOf_def)
  also have "\<dots> = snd (scanLines parse [last (splitLines out)]
                (snd (scanLines parse (butlast (splitLines out)) None)))"
    using nt by (simp only: scanLines_append if_False)
  finally show ?thesis by simp
qed

lemma run_success:
  assumes data: "\<forall>e \<in> set ds. isData e"
    and nothrow: "\<forall>line \<in> set (splitLines (stdoutOf dec ds)). \<not> throwsOn parse line"
    and lastmsg: "lastAgentMessageOf parse (stdoutOf dec ds) = Some t"
    and t: "t \<noteq> []" "normalizeGeneratedMessage t \<noteq> []"
  shows "outcome (runEvents parse lc dec nf cmd opts (ds @ [Close (Some 0)]) initialProcState)
           = Some (Inr (normalizeGeneratedMessage t))"
proof -
  let ?st1 = "runEvents parse lc dec nf cmd opts ds initialProcState"
  let ?st2 = "?st1\<lparr>settled := True, timerArmed := False\<rparr>"
  from runEvents_data_flags [OF data, of parse lc dec nf cmd opts initialProcState]
  have flags: "\<not> timedOut ?st1" "\<not> settled ?st1" "outcome ?st1 = None"
    by (simp_all add: initialProcState_fields)
  have buf: "stdoutBuffer ?st1 = last (splitLines (stdoutOf dec ds))"
    using runEvents_data_buffer [OF data, of initialProcState "[]" parse lc dec nf cmd opts]
    by (simp add: initialProcState_fields)
  have lam: "lastAgentMessage ?st1 = snd (scanLines parse (butlast (splitLines (stdoutOf dec ds))) None)"
    using runEvents_data_last [OF data, of initialProcState "[]" parse dec lc nf cmd opts] nothrow
    by (simp add: initialProcState_fields)
  have noLF: "LF \<notin> set (stdoutBuffer ?st2)"
    using buf last_splitLines_no_LF [of "stdoutOf dec ds"] by simp
  have nt: "\<not> throwsOn parse (stdoutBuffer ?st2)"
    using buf nothrow by simp
  have scan: "snd (scanLines parse [stdoutBuffer ?st2] (lastAgentMessage ?st2)) = Some t"
    using lastAgentMessageOf_split [OF nothrow] buf lam lastmsg by simp
  have "outcome (closeCallback parse lc opts (Some 0) ?st2) = Some (Inr (normalizeGeneratedMessage t))"
    using closeCallback_success [OF noLF nt _ _ scan t] flags by simp
  with flags(2) show ?thesis
    by (simp add: runEvents_append runEvents_def onClose_unsettled)
qed

text \<open>
  When the timer expires before the child closes and the flush of the buffered line
  does not throw, the promise is rejected with the kind \<open>timeout\<close>, whatever was
  written, whatever the exit code, and whether or not an agent message was seen.
\<close>

lemma run_timeout:
  assumes pre: "\<forall>e \<in> set pre. isData e" and mid: "\<forall>e \<in> set mid. isData e"
    and nothrow: "\<not> throwsOn parse (last (splitLines (stdoutOf dec pre @ stdoutOf dec mid)))"
  shows "outcome (runEvents parse lc dec nf cmd opts (pre @ [TimerExpired] @ mid @ [Close exitCode])
                    initialProcState)
           = Some (Inl \<lparr>code = Timeout,
                        emessage = ascii ''Codex generation timed out after '' @
                                   showInt (timeoutMs opts) @ ascii '' ms.'',
                        details = None\<rparr>)"
proof -
  let ?st1 = "runEvents parse lc dec nf cmd opts pre initialProcState"
  let ?st2 = "onTimeout opts ?st1"
  let ?st3 = "runEvents parse lc dec nf cmd opts mid ?st2"
  let ?st4 = "?st3\<lparr>settled := True, timerArmed := False\<rparr>"
  from runEvents_data_flags [OF pre, of parse lc dec nf cmd opts initialProcState]
  have f1: "timerArmed ?st1" "\<not> settled ?st1" "outcome ?st1 = None"
    by (simp_all add: initialProcState_fields)
  have b1: "stdoutBuffer ?st1 = last (splitLines (stdoutOf dec pre))"
    using runEvents_data_buffer [OF pre, of initialProcState "[]" parse lc dec nf cmd opts]
    by (simp add: initialProcState_fields)
  from f1 have f2: "timedOut ?st2" "\<not> settled ?st2" "outcome ?st2 = None"
    by (simp_all add: onTimeout_fields)
  from b1 have b2: "stdoutBuffer ?st2 = last (splitLines (stdoutOf dec pre))"
    by (simp add: onTimeout_fields)
  from runEvents_data_flags [OF mid, of parse lc dec nf cmd opts ?st2] f2
  have f3: "timedOut ?st3" "\<not> settled ?st3" "outcome ?st3 = None"
    by simp_all
  have b3: "stdoutBuffer ?st3 = last (splitLines (stdoutOf dec pre @ stdoutOf dec mid))"
    by (rule runEvents_data_buffer [OF mid b2])
  have noLF: "LF \<notin> set (stdoutBuffer ?st4)"
    using b3 last_splitLines_no_LF [of "stdoutOf dec pre @ stdoutOf dec mid"] by simp
  have nt: "\<not> throwsOn parse (stdoutBuffer ?st4)"
    using b3 nothrow by simp
  have "outcome (closeCallback parse lc opts exitCode ?st4) =
          Some (Inl \<lparr>code = Timeout,
                     emessage = ascii ''Codex generation timed out after '' @
                                showInt (timeoutMs opts) @ ascii '' ms.'',
                     details = None\<rparr>)"
    using closeCallback_timeout [OF noLF nt] f3 by simp
  with f3(2) show ?thesis
    by (simp add: runEvents_append runEvents_def onClose_unsettled)
qed

lemma rev_dropWhile_takeWhile:
  "xs = rev (dropWhile P (rev xs)) @ rev (takeWhile P (rev xs))"
proof -
  have "rev xs = takeWhile P (rev xs) @ dropWhile P (rev xs)"
    by (rule takeWhile_dropWhile_id [symmetric])
  then have "rev (rev xs) = rev (takeWhile P (rev xs) @ dropWhile P (rev xs))"
    by (rule arg_cong)
  then show ?thesis by (simp only: rev_rev_ident rev_append)
qed

lemma stripQuotes_tail:
  "dropWhile isQuote s = stripQuotes s @ rev (takeWhile isQuote (rev (dropWhile isQuote s)))"
  unfolding stripQuotes_def by (rule rev_dropWhile_takeWhile)

lemma stripQuotes_decomp:
  "\<exists>qs1 qs2. s = qs1 @ stripQuotes s @ qs2 \<and> (\<forall>c \<in> set qs1. isQuote c) \<and>
              (\<forall>c \<in> set qs2. isQuote c)"
proof -
  let ?q2 = "rev (takeWhile isQuote (rev (dropWhile isQuote s)))"
  have "s = takeWhile isQuote s @ dropWhile isQuote s"
    by (rule takeWhile_dropWhile_id [symmetric])
  with stripQuotes_tail [of s] have "s = takeWhile isQuote s @ stripQuotes s @ ?q2"
    by (simp only:)
  moreover have "\<forall>c \<in> set (takeWhile isQuote s). isQuote c"
    by (meson set_takeWhileD)
  moreover have "\<forall>c \<in> set ?q2. isQuote c"
    by (metis set_rev set_takeWhileD)
  ultimately show ?thesis by blast
qed

lemma stripQuotes_ends:
  assumes "stripQuotes s \<noteq> []"
  shows "\<not> isQuote (hd (stripQuotes s)) \<and> \<not> isQuote (last (stripQuotes s))"
proof -
  let ?d = "dropWhile isQuote s"
  let ?e = "dropWhile isQuote (rev ?d)"
  from assms have e: "?e \<noteq> []" by (simp add: stripQuotes_def)
  then have "\<not> isQuote (hd ?e)" by (rule hd_dropWhile)
  with e have l: "\<not> isQuote (last (stripQuotes s))"
    by (simp add: stripQuotes_def last_rev)
  have d: "?d \<noteq> []"
  proof
    assume "?d = []"
    then have "?e = []" by (simp only: rev.simps dropWhile.simps)
    with e show False by blast
  qed
  then have hd: "\<not> isQuote (hd ?d)" by (rule hd_dropWhile)
  from stripQuotes_tail [of s] assms have "hd ?d = hd (stripQuotes s)"
    by (metis hd_append2)
  with hd l show ?thesis by simp
qed

text \<open>
  The loop of the stdout listener against the specification's wording: as long as no
  line is parsed to the JSON value null, the last agent message the loop keeps is the
  text of the last significant event.
\<close>

lemma agentMessageText_spec:
  "event \<noteq> JNull \<Longrightarrow> agentMessageText event = Inr (spec_agentText event)"
proof (cases event)
  case (JObj kvs)
  show ?thesis
  proof (cases "map_of kvs (ascii ''item'')")
    case None
    with JObj show ?thesis by (simp add: agentMessageText_def spec_agentText_def)
  next
    case (Some item)
    with JObj show ?thesis
      by (cases item) (simp_all add: agentMessageText_def spec_agentText_def split: option.splits json.splits)
  qed
qed (simp_all add: agentMessageText_def spec_agentText_def)

lemma scanLines_spec:
  assumes "\<forall>x \<in> set xs. \<not> throwsOn parse x"
  shows "snd (scanLines parse xs l) =
           (case List.map_filter (spec_lineText parse) (filter (\<lambda>line. trim line \<noteq> []) xs) of
              [] \<Rightarrow> l
            | t # ts \<Rightarrow> Some (last (t # ts)))"
  using assms
proof (induction xs arbitrary: l)
  case Nil
  show ?case by (simp add: List.map_filter_simps)
next
  case (Cons x xs)
  then have nx: "\<not> throwsOn parse x" and rest: "\<forall>x \<in> set xs. \<not> throwsOn parse x" by simp_all
  note IH = Cons.IH [OF rest]
  show ?case
  proof (cases "trim x = []")
    case True
    with IH show ?thesis by simp
  next
    case False
    show ?thesis
    proof (cases "parse (trim x)")
      case None
      with False IH show ?thesis
        by (simp add: List.map_filter_simps spec_lineText_def)
    next
      case (Some event)
      with nx False have "event \<noteq> JNull" by (auto simp: throwsOn_def)
      then have am: "agentMessageText event = Inr (spec_agentText event)"
        by (rule agentMessageText_spec)
      show ?thesis
      proof (cases "spec_agentText event")
        case None
        with Some False am IH show ?thesis
          by (simp add: List.map_filter_simps spec_lineText_def)
      next
        case (Some t)
        with \<open>parse (trim x) = Some event\<close> False am IH [of "Some t"] show ?thesis
          by (simp add: List.map_filter_simps spec_lineText_def split: list.splits)
      qed
    qed
  qed
qed

lemma lastAgentMessageOf_spec:
  assumes "\<forall>line \<in> set (splitLines out). \<not> throwsOn parse line"
    and "spec_agentTexts parse out \<noteq> []"
  shows "lastAgentMessageOf parse out = Some (last (spec_agentTexts parse out))"
  using scanLines_spec [OF assms(1), of None] assms(2)
  by (simp add: lastAgentMessageOf_def spec_agentTexts_def split: list.splits)

text \<open>
  C7, amended. Take the text the stdout listener receives: the Buffers the child
  writes, each decoded on its own, one after the other. For every run in which only
  output arrives before the child closes with exit code 0, no line of that text is
  parsed to the JSON value null, the text \<open>t\<close> of the last completed agent message in it
  is not empty, and the first non-blank line of \<open>t\<close>, trimmed, is \<open>line\<close>: \<open>line\<close> is a run of
  quote characters, then a text that neither starts nor ends with a quote character,
  then a run of quote characters, and the result is that text in the middle, trimmed,
  provided it is not empty. So the whole run of quote characters is removed at each
  end, not one layer. The result depends on the decoded text only, not on where it is
  cut into Buffers.
\<close>

theorem agent_message_normalized:
  assumes "\<forall>e \<in> set ds. isData e"
    and "\<forall>line \<in> set (splitLines (stdoutOf dec ds)). parse (trim line) \<noteq> Some JNull"
    and "spec_agentTexts parse (stdoutOf dec ds) \<noteq> []"
    and "last (spec_agentTexts parse (stdoutOf dec ds)) = t" and "t \<noteq> []"
    and "find (\<lambda>l. length l > 0) (map trim (splitLines t)) = Some line"
    and "trim (stripQuotes line) \<noteq> []"
  shows "\<exists>qs1 qs2.
           line = qs1 @ stripQuotes line @ qs2 \<and>
           (\<forall>c \<in> set qs1. isQuote c) \<and> (\<forall>c \<in> set qs2. isQuote c) \<and>
           \<not> isQuote (hd (stripQuotes line)) \<and> \<not> isQuote (last (stripQuotes line)) \<and>
           generateCommitMessageWithCodex parse lc dec opts (ds @ [Close (Some 0)])
             = Some (Inr (trim (stripQuotes line)))"
proof -
  have tn: "trim [] = []" by (simp add: trim_def trimStart_def trimEnd_def)
  from assms(2) have nothrow: "\<forall>line \<in> set (splitLines (stdoutOf dec ds)). \<not> throwsOn parse line"
    by (simp add: throwsOn_def)
  from lastAgentMessageOf_spec [OF nothrow assms(3)] assms(4)
  have lastmsg: "lastAgentMessageOf parse (stdoutOf dec ds) = Some t" by simp
  from assms(6) have norm: "normalizeGeneratedMessage t = trim (stripQuotes line)"
    by (simp add: normalizeGeneratedMessage_def)
  with assms(7) have nn: "normalizeGeneratedMessage t \<noteq> []" by simp
  from assms(7) tn have ne: "stripQuotes line \<noteq> []" by auto
  from stripQuotes_decomp [of line] obtain qs1 qs2
    where qs: "line = qs1 @ stripQuotes line @ qs2" "\<forall>c \<in> set qs1. isQuote c"
      "\<forall>c \<in> set qs2. isQuote c"
    by blast
  from run_success [OF assms(1) nothrow lastmsg assms(5) nn,
      of lc "[ascii ''ENOENT'']" "commandPath opts" opts] norm
  have "generateCommitMessageWithCodex parse lc dec opts (ds @ [Close (Some 0)])
          = Some (Inr (trim (stripQuotes line)))"
    by (simp add: generateCommitMessageWithCodex_def)
  with qs stripQuotes_ends [OF ne] show ?thesis by blast
qed

lemma ex_lines: "splitLines (stdoutOf asciiDecode exampleEvents) = [exampleEventLine, []]"
  by code_simp

lemma ex_texts: "spec_agentTexts exampleParse (stdoutOf asciiDecode exampleEvents) = [exampleText]"
  by code_simp

lemma ex_not_null:
  "exampleParse (trim exampleEventLine) \<noteq> Some JNull" "exampleParse (trim []) \<noteq> Some JNull"
  by code_simp+

lemma ex_find: "find (\<lambda>l. length l > 0) (map trim (splitLines exampleText)) = Some (quoted (ascii ''fix: bar''))"
  by code_simp

lemma ex_res: "trim (stripQuotes (quoted (ascii ''fix: bar''))) = ascii ''fix: bar''"
  by code_simp

lemma ex_stripped: "stripQuotes (quoted (ascii ''fix: bar'')) = ascii ''fix: bar''"
  by code_simp

text \<open>
  C6 at the failing input: the child has written \<open>null\<close> without a line break when the
  timer expires and the child is killed. The flush at close parses the line, reading
  \<open>event.type\<close> of null throws inside the settle callback, and the promise is never
  rejected: no error of kind \<open>timeout\<close> reaches the caller.
\<close>

theorem timeout_lost_on_null_line:
  "timedOut (runEvents exampleParse id asciiDecode [ascii ''ENOENT''] (ascii ''codex'') exampleGenOptions
               (butlast nullEvents) initialProcState) \<and>
   generateCommitMessageWithCodex exampleParse id asciiDecode exampleGenOptions nullEvents = None"
  by code_simp

text \<open>
  A line that is parsed to null makes the loop throw and the rest of its Buffer is
  skipped: the same output, \<open>null\<close> on a line before the agent message, fails with
  \<open>parse-failed\<close> when it arrives as one Buffer and succeeds when the Buffers are cut
  after the first line.
\<close>

lemma null_line_depends_on_chunks:
  "stdoutOf asciiDecode nullThenEventOneChunk = stdoutOf asciiDecode nullThenEventTwoChunks \<and>
   generateCommitMessageWithCodex exampleParse id asciiDecode exampleGenOptions
     nullThenEventOneChunk
     = Some (Inl \<lparr>code = ParseFailed,
                   emessage = ascii ''No agent message was found in Codex JSON output.'',
                   details = None\<rparr>) \<and>
   generateCommitMessageWithCodex exampleParse id asciiDecode exampleGenOptions
     nullThenEventTwoChunks
     = Some (Inr (ascii ''fix: bar''))"
  by code_simp

text \<open>
  C7 as stated fails: of a text wrapped in two quote characters at each end, the code
  strips both layers, where stripping one layer leaves one.
\<close>

theorem normalize_strips_all_quotes:
  "normalizeGeneratedMessage doublyQuoted = ascii ''foo'' \<and>
   spec_normalize doublyQuoted = quoted (ascii ''foo'')"
  by code_simp

text \<open>
  C7, amended, at an agent message with the text \<open>"fix: bar"\<close> between blanks and
  followed by a line break, written in two Buffers with a Buffer of standard error in
  between.
\<close>

theorem agent_message_normalized_witness:
  "list_all isData exampleEvents \<and>
   splitLines (stdoutOf asciiDecode exampleEvents) = [exampleEventLine, []] \<and>
   exampleParse (trim exampleEventLine) \<noteq> Some JNull \<and> exampleParse (trim []) \<noteq> Some JNull \<and>
   spec_agentTexts exampleParse (stdoutOf asciiDecode exampleEvents) = [exampleText] \<and>
   exampleText \<noteq> [] \<and>
   find (\<lambda>l. length l > 0) (map trim (splitLines exampleText)) = Some (quoted (ascii ''fix: bar'')) \<and>
   stripQuotes (quoted (ascii ''fix: bar'')) = ascii ''fix: bar'' \<and>
   generateCommitMessageWithCodex exampleParse id asciiDecode exampleGenOptions
     (exampleEvents @ [Close (Some 0)]) = Some (Inr (ascii ''fix: bar''))"
proof -
  have h1: "\<forall>e \<in> set exampleEvents. isData e"
    by (simp add: exampleEvents_def)
  have h2: "\<forall>line \<in> set (splitLines (stdoutOf asciiDecode exampleEvents)).
              exampleParse (trim line) \<noteq> Some JNull"
    using ex_not_null by (simp add: ex_lines)
  have h3: "spec_agentTexts exampleParse (stdoutOf asciiDecode exampleEvents) \<noteq> []"
    by (simp add: ex_texts)
  have h4: "last (spec_agentTexts exampleParse (stdoutOf asciiDecode exampleEvents)) = exampleText"
    by (simp add: ex_texts)
  have h5: "exampleText \<noteq> []"
    by (simp add: exampleText_def)
  have h7: "trim (stripQuotes (quoted (ascii ''fix: bar''))) \<noteq> []"
    by code_simp
  have res: "trim (stripQuotes (quoted (ascii ''fix: bar''))) = ascii ''fix: bar''"
    by code_simp
  from agent_message_normalized [OF h1 h2 h3 h4 h5 ex_find h7, of id exampleGenOptions] res
  have "generateCommitMessageWithCodex exampleParse id asciiDecode exampleGenOptions
          (exampleEvents @ [Close (Some 0)]) = Some (Inr (ascii ''fix: bar''))"
    by auto
  moreover have "list_all isData exampleEvents"
    by (simp add: exampleEvents_def)
  ultimately show ?thesis
    using ex_lines ex_not_null ex_texts h5 ex_find ex_stripped by blast
qed

end
